theory Spec2Isabelle
  imports Main "HOL-Library.Word" "HOL-Library.Multiset"
begin

unbundle bit_operations_syntax

section \<open>repoharvester: data model\<close>

text \<open>
  The Go program \<^verbatim>\<open>repoharvester.go\<close> is embedded function by function.  Go strings are
  byte sequences (\<^typ>\<open>string\<close>), \<^verbatim>\<open>int8\<close>, \<^verbatim>\<open>uint32\<close> and \<^verbatim>\<open>uint64\<close> are words of that
  width, a Go \<^verbatim>\<open>map\<close> is a partial function, and a run-time panic is a value of type
  \<open>panic\<close> on the left of a sum.
\<close>

type_synonym i8 = "8 word"
type_synonym u32 = "32 word"
type_synonym u64 = "64 word"

text \<open>A \<^verbatim>\<open>*Repo\<close> is an address; the records behind the addresses live in a store.\<close>

type_synonym addr = nat

record Repo =
  Name :: string
  Clone_url :: string
  Size :: u64
  Fork :: bool
  local_path :: string

record EmailContext =
  Repo :: addr
  EmailAddress :: string
  Role :: i8

text \<open>\<^verbatim>\<open>EmailGroupByRepoKey{Email, Repo}\<close>; the pointer field is \<open>RepoPtr\<close> here, since
  \<open>Repo\<close> is already the field of \<open>EmailContext\<close>.\<close>

record EmailGroupByRepoKey =
  Email :: string
  RepoPtr :: addr

record FmtRepoPerEmail =
  RepoName :: string
  RoleName :: string
  RepoUrl :: string

definition ROLE_AUTHOR :: i8 where
  "ROLE_AUTHOR = push_bit 0 1"

definition ROLE_COMMITTER :: i8 where
  "ROLE_COMMITTER = push_bit 1 1"

definition ROLE_NAME_COMMITTER :: string where
  "ROLE_NAME_COMMITTER = ''Committer''"

definition ROLE_NAME_AUTHOR :: string where
  "ROLE_NAME_AUTHOR = ''Author''"

definition ROLE_NAME_BOTH :: string where
  "ROLE_NAME_BOTH = ''Author+Committer''"

definition ROLE_MASK_BOTH :: i8 where
  "ROLE_MASK_BOTH = ROLE_AUTHOR OR ROLE_COMMITTER"

datatype panic =
    SliceBoundsOutOfRange
  | IndexOutOfRange
  | ParseUintError

section \<open>The functions of package \<^verbatim>\<open>strings\<close> and \<^verbatim>\<open>strconv\<close> that the program calls\<close>

definition HasPrefix :: "string \<Rightarrow> string \<Rightarrow> bool" where
  "HasPrefix s p \<longleftrightarrow> length p \<le> length s \<and> take (length p) s = p"

definition HasSuffix :: "string \<Rightarrow> string \<Rightarrow> bool" where
  "HasSuffix s suf \<longleftrightarrow> length suf \<le> length s \<and> drop (length s - length suf) s = suf"

text \<open>\<^verbatim>\<open>strings.Index\<close>: the index of the first instance of \<open>sub\<close>, or \<open>-1\<close>.\<close>

fun Index :: "string \<Rightarrow> string \<Rightarrow> int" where
  "Index [] sub = (if sub = [] then 0 else -1)"
| "Index (c # cs) sub =
     (if HasPrefix (c # cs) sub then 0
      else (let r = Index cs sub in if r < 0 then -1 else r + 1))"

text \<open>\<^verbatim>\<open>strings.LastIndex\<close>: the index of the last instance of \<open>sub\<close>, or \<open>-1\<close>.\<close>

fun LastIndex :: "string \<Rightarrow> string \<Rightarrow> int" where
  "LastIndex [] sub = (if sub = [] then 0 else -1)"
| "LastIndex (c # cs) sub =
     (let r = LastIndex cs sub in
      if 0 \<le> r then r + 1 else if HasPrefix (c # cs) sub then 0 else -1)"

text \<open>A slice expression \<^verbatim>\<open>s[lo:hi]\<close> panics unless \<open>0 \<le> lo \<le> hi \<le> len(s)\<close>.\<close>

definition slice :: "string \<Rightarrow> int \<Rightarrow> int \<Rightarrow> panic + string" where
  "slice s lo hi =
     (if 0 \<le> lo \<and> lo \<le> hi \<and> hi \<le> int (length s)
      then Inr (take (nat (hi - lo)) (drop (nat lo) s))
      else Inl SliceBoundsOutOfRange)"


text \<open>
  \<^verbatim>\<open>strings.Split(s, sep)\<close>: the substrings between the leftmost, non-overlapping
  instances of \<open>sep\<close>.  With an empty separator Go splits after every UTF-8 sequence;
  the bytes stand for them here (the program only splits at \<^verbatim>\<open>", "\<close> and \<^verbatim>\<open>"; "\<close>).
\<close>

lemma Index_found_nonempty: "sub \<noteq> [] \<Longrightarrow> \<not> Index s sub < 0 \<Longrightarrow> s \<noteq> []"
  by (cases s) auto

function Split :: "string \<Rightarrow> string \<Rightarrow> string list" where
  "Split s sep =
     (if sep = [] then map (\<lambda>c. [c]) s
      else if Index s sep < 0 then [s]
      else take (nat (Index s sep)) s # Split (drop (nat (Index s sep) + length sep) s) sep)"
  by pat_completeness auto
termination
proof (relation "measure (\<lambda>(s, sep). length s)")
  show "wf (measure (\<lambda>(s, sep). length s))"
    by simp
next
  fix s sep :: string
  assume "sep \<noteq> []" and "\<not> Index s sep < 0"
  then have "s \<noteq> []"
    by (rule Index_found_nonempty)
  with \<open>sep \<noteq> []\<close>
  show "((drop (nat (Index s sep) + length sep) s, sep), (s, sep)) \<in> measure (\<lambda>(s, sep). length s)"
    by (cases sep) auto
qed

declare Split.simps [simp del]

text \<open>\<^verbatim>\<open>strconv.ParseUint(s, 10, 32)\<close>: \<open>None\<close> stands for the error (a syntax error on the
  empty string or on a byte that is no decimal digit, a range error from \<open>2^32\<close> on).\<close>

definition digit_val :: "char \<Rightarrow> nat option" where
  "digit_val c =
     (if (48::nat) \<le> of_char c \<and> (of_char c :: nat) \<le> 57 then Some (of_char c - 48) else None)"

fun parse_digits :: "nat \<Rightarrow> string \<Rightarrow> nat option" where
  "parse_digits acc [] = Some acc"
| "parse_digits acc (c # cs) =
     (case digit_val c of
        None \<Rightarrow> None
      | Some d \<Rightarrow> parse_digits (acc * 10 + d) cs)"

definition ParseUint_10_32 :: "string \<Rightarrow> nat option" where
  "ParseUint_10_32 s =
     (if s = [] then None
      else (case parse_digits 0 s of
              None \<Rightarrow> None
            | Some n \<Rightarrow> if n < 2 ^ 32 then Some n else None))"

section \<open>Link headers (lines 374--413)\<close>

type_synonym header = "string \<rightharpoonup> string list"

text \<open>\<^verbatim>\<open>val[0]\<close> on a header value.\<close>

definition first_value :: "string list \<Rightarrow> panic + string" where
  "first_value val = (case val of [] \<Rightarrow> Inl IndexOutOfRange | v # _ \<Rightarrow> Inr v)"

text \<open>\<^verbatim>\<open>strings.Split(value, "; ")[0]\<close>; the result of \<open>Split\<close> is never empty.\<close>

definition before_semicolon :: "string \<Rightarrow> string" where
  "before_semicolon v = (case Split v ''; '' of [] \<Rightarrow> [] | u # _ \<Rightarrow> u)"

text \<open>The loop of \<open>get_next_link\<close> over the entries of the header; the result is the flag
  that the function returns and the new value of \<^verbatim>\<open>*next_url\<close>.\<close>

fun next_link_entries :: "string list \<Rightarrow> string \<Rightarrow> panic + (bool \<times> string)" where
  "next_link_entries [] next_url = Inr (False, next_url)"
| "next_link_entries (v # vs) next_url =
     (if HasSuffix v ''\"next\"''
      then (case slice (before_semicolon v) 1 (int (length (before_semicolon v)) - 1) of
              Inl p \<Rightarrow> Inl p
            | Inr u \<Rightarrow> Inr (True, u))
      else next_link_entries vs next_url)"

definition get_next_link :: "header \<Rightarrow> string \<Rightarrow> panic + (bool \<times> string)" where
  "get_next_link http_header next_url =
     (case http_header ''Link'' of
        None \<Rightarrow> Inr (False, next_url)
      | Some val \<Rightarrow>
          (case first_value val of
             Inl p \<Rightarrow> Inl p
           | Inr v0 \<Rightarrow> next_link_entries (Split v0 '', '') next_url))"

text \<open>The loop of \<open>get_total_pages\<close>: \<open>None\<close> when no entry ends in \<^verbatim>\<open>"last"\<close>, else the
  page count of the first such entry, or the panic of its slice or of \<^verbatim>\<open>panic(err)\<close>.\<close>

fun last_link_entries :: "string list \<Rightarrow> (panic + u32) option" where
  "last_link_entries [] = None"
| "last_link_entries (v # vs) =
     (if HasSuffix v ''\"last\"''
      then Some
        (case slice (before_semicolon v)
                (int (length (before_semicolon v)) - 2) (int (length (before_semicolon v)) - 1) of
           Inl p \<Rightarrow> Inl p
         | Inr d \<Rightarrow>
             (case ParseUint_10_32 d of
                None \<Rightarrow> Inl ParseUintError
              | Some pages \<Rightarrow> Inr (of_nat pages)))
      else last_link_entries vs)"

definition get_total_pages :: "header \<Rightarrow> u32 \<Rightarrow> panic + u32" where
  "get_total_pages http_header total_pages =
     (if total_pages > 0 then Inr total_pages
      else (case http_header ''Link'' of
              None \<Rightarrow> Inr 1
            | Some val \<Rightarrow>
                (case first_value val of
                   Inl p \<Rightarrow> Inl p
                 | Inr v0 \<Rightarrow>
                     (case last_link_entries (Split v0 '', '') of
                        None \<Rightarrow> Inr 1
                      | Some r \<Rightarrow> r))))"



section \<open>Shared state: progress counters, cancellation token, log\<close>

datatype log_level = LOG_FATAL | LOG_ERROR | LOG_INFO | LOG_DEBUG

definition GITHUB_FETCH :: nat where "GITHUB_FETCH = 0"
definition GITHUB_TOTAL_PAGES :: nat where "GITHUB_TOTAL_PAGES = 0"
definition GITHUB_PARSE :: nat where "GITHUB_PARSE = 1"
definition REMOTE_REPOS :: nat where "REMOTE_REPOS = 1"
definition GIT_OPS_CLONE :: nat where "GIT_OPS_CLONE = 2"
definition LOCAL_REPOS :: nat where "LOCAL_REPOS = 2"
definition GIT_OPS_LOG :: nat where "GIT_OPS_LOG = 3"
definition GIT_IDENTITIES :: nat where "GIT_IDENTITIES = 3"
definition EMAILS_DEDUP :: nat where "EMAILS_DEDUP = 4"
definition EMAILS_GROUPED :: nat where "EMAILS_GROUPED = 5"

text \<open>
  The four global counter slices are functions of the index (every index of the program
  is one of the constants above, inside the lengths that \<open>main\<close> allocates).
  \<open>ctx_cancelled\<close> is the cancellation token of \<open>main\<close>'s context, \<open>logged\<close> the calls
  of the logger with the fixed part of their message, \<open>commands\<close> the argument vectors of
  the subprocesses that were run, and \<open>clock\<close> counts the interactions with the
  environment.

  Left out, since they delay a stage without changing what it computes: the number of
  permits of the weighted semaphore (\<open>Acquire\<close> appears with the one way in which it
  fails, a context that is done), the capacity of the queues (a send appears with the one
  way in which it is given up, again a context that is done), and the progress messages
  of \<^verbatim>\<open>logger.DebugFunc(infoLogger)\<close>.
\<close>

record world =
  active_data :: "nat \<Rightarrow> u32"
  error_data :: "nat \<Rightarrow> u32"
  completion_data :: "nat \<Rightarrow> u32"
  total_data :: "nat \<Rightarrow> u32"
  ctx_cancelled :: bool
  clock :: nat
  logged :: "(log_level \<times> string) list"
  commands :: "string list list"

text \<open>What a response body decodes to: the successive results of \<^verbatim>\<open>dec.Decode(&r)\<close>, with
  \<^verbatim>\<open>io.EOF\<close> after the last one.\<close>

datatype decoded = Decoded "Repo list" | DecodeError

type_synonym body = "decoded list"

datatype do_result = DoErr | DoOk header body

datatype run_result = RunOk "string list" | RunKilled | RunExitError | RunFailed

text \<open>
  The environment of a run, indexed by the clock: whether an interrupt signal has
  arrived, which case a \<^verbatim>\<open>select\<close> takes when the context is done and its other case is
  ready too, the result of an HTTP request and of a subprocess (with the lines of its
  standard output), whether the scanner reports an error, whether the two-slot local
  semaphore has a free slot, and the order in which \<^verbatim>\<open>range\<close> visits the two entries of
  \<open>params_containers\<close>.
\<close>

record env =
  interrupt_at :: "nat \<Rightarrow> bool"
  prefer_done :: "nat \<Rightarrow> bool"
  new_request_err :: "string \<Rightarrow> bool"
  http_do :: "nat \<Rightarrow> do_result"
  cmd_run :: "nat \<Rightarrow> run_result"
  scanner_err :: "nat \<Rightarrow> bool"
  try_acquire :: "nat \<Rightarrow> bool"
  author_first :: "nat \<Rightarrow> bool"
  filepath_Join :: "string \<Rightarrow> string \<Rightarrow> string"

text \<open>\<^verbatim>\<open>atomic.AddUint32(&arr[i], delta)\<close>, and \<^verbatim>\<open>^uint32(0)\<close>.\<close>

definition AddUint32 :: "(nat \<Rightarrow> u32) \<Rightarrow> nat \<Rightarrow> u32 \<Rightarrow> nat \<Rightarrow> u32" where
  "AddUint32 arr i delta = arr(i := arr i + delta)"

definition minus_one :: u32 where
  "minus_one = NOT 0"

definition log_call :: "log_level \<Rightarrow> string \<Rightarrow> 'a world_scheme \<Rightarrow> 'a world_scheme" where
  "log_call lvl msg st = st\<lparr>logged := logged st @ [(lvl, msg)]\<rparr>"

text \<open>The goroutine of \<open>main\<close> (lines 1169--1180) that waits for the interrupt signal and
  then calls \<^verbatim>\<open>cancel()\<close>.  The other calls of \<^verbatim>\<open>cancel\<close> (line 1207 and the deferred one
  of line 1153) come after both aggregations have signalled that they are done, and are
  not part of the runs of the stages.\<close>

definition signal_watcher :: "env \<Rightarrow> 'a world_scheme \<Rightarrow> 'a world_scheme" where
  "signal_watcher e st = (if interrupt_at e (clock st) then st\<lparr>ctx_cancelled := True\<rparr> else st)"

text \<open>
  A \<^verbatim>\<open>select\<close> between \<^verbatim>\<open>ctx.Done()\<close> and one other case, and \<^verbatim>\<open>g_semaphore.Acquire(ctx, 1)\<close>:
  the flag says that the context won.  \<open>other_ready\<close> tells whether the other case can
  proceed at all.
\<close>

definition select_ctx :: "env \<Rightarrow> bool \<Rightarrow> 'a world_scheme \<Rightarrow> bool \<times> 'a world_scheme" where
  "select_ctx e other_ready st =
     (let st1 = signal_watcher e st in
      (ctx_cancelled st1 \<and> (prefer_done e (clock st1) \<or> \<not> other_ready),
       st1\<lparr>clock := Suc (clock st1)\<rparr>))"

section \<open>Stage 1: \<open>get_repos_from_github\<close> (lines 415--511)\<close>

record fetcher = world +
  urls :: "string list"
  urls_closed :: bool
  bodies :: "body list"
  bodies_closed :: bool
  next_url :: string
  total_pages :: u32
  fetch_panic :: "panic option"

text \<open>A \<^verbatim>\<open>return\<close> of the goroutine runs \<^verbatim>\<open>defer close(bodies)\<close> and \<^verbatim>\<open>defer close(urls)\<close>.\<close>

definition fetcher_return :: "fetcher \<Rightarrow> fetcher" where
  "fetcher_return st = st\<lparr>bodies_closed := True, urls_closed := True\<rparr>"

text \<open>Lines 486--505, after a request that succeeded.  The flag says that the goroutine
  returned; otherwise the \<^verbatim>\<open>break\<close> leads back to the outer loop.\<close>

definition handle_response :: "env \<Rightarrow> header \<Rightarrow> body \<Rightarrow> fetcher \<Rightarrow> bool \<times> fetcher" where
  "handle_response e hdr b st =
     (case get_total_pages hdr (total_pages st) of
        Inl p \<Rightarrow> (True, st\<lparr>fetch_panic := Some p\<rparr>)
      | Inr tp \<Rightarrow>
          (let st1 = st\<lparr>total_pages := tp,
                        total_data := (total_data st)(GITHUB_TOTAL_PAGES := tp),
                        completion_data := AddUint32 (completion_data st) GITHUB_FETCH 1,
                        active_data := AddUint32 (active_data st) GITHUB_FETCH minus_one\<rparr>;
               (fired, st2) = select_ctx e True st1
           in if fired then (True, st2)
              else (let st3 = st2\<lparr>bodies := bodies st2 @ [b]\<rparr> in
                    case get_next_link hdr (next_url st3) of
                      Inl p \<Rightarrow> (True, st3\<lparr>fetch_panic := Some p\<rparr>)
                    | Inr (ok, nu) \<Rightarrow>
                        if ok then (False, st3\<lparr>next_url := nu, urls := urls st3 @ [nu]\<rparr>)
                        else (True, log_call LOG_INFO ''Stage 1 - Get Github Repos: Completed.'' st3))))"

text \<open>The inner \<^verbatim>\<open>for\<close> loop (lines 472--506) with the request of one URL.
  \<open>fetch_counter\<close> is an \<^verbatim>\<open>int8\<close> that starts at 1 and never passes 4.\<close>

function do_request :: "env \<Rightarrow> int \<Rightarrow> fetcher \<Rightarrow> bool \<times> fetcher" where
  "do_request e fetch_counter st =
     (case http_do e (clock st) of
        DoErr \<Rightarrow>
          if fetch_counter \<ge> 4
          then (True,
                (log_call LOG_ERROR ''Stage 1 - Get Github Repos: Error fetching'' st)
                  \<lparr>clock := Suc (clock st),
                   error_data := AddUint32 (error_data st) GITHUB_FETCH 1,
                   active_data := AddUint32 (active_data st) GITHUB_FETCH minus_one\<rparr>)
          else do_request e (fetch_counter + 1)
                 ((log_call LOG_DEBUG ''Stage 1 - Get Github Repos: Attempt'' st)
                    \<lparr>clock := Suc (clock st)\<rparr>)
      | DoOk hdr b \<Rightarrow> handle_response e hdr b (st\<lparr>clock := Suc (clock st)\<rparr>))"
  by pat_completeness auto
termination
  by (relation "measure (\<lambda>(e, fetch_counter, st). nat (4 - fetch_counter))") auto

declare do_request.simps [simp del]

text \<open>The outer \<^verbatim>\<open>for\<close> loop (lines 454--508).  It can go on for as long as every page
  links to a next one, so it takes fuel; \<open>None\<close> also stands for a receive that blocks
  for ever on an empty work queue.\<close>

fun fetcher_loop :: "nat \<Rightarrow> env \<Rightarrow> fetcher \<Rightarrow> fetcher option" where
  "fetcher_loop 0 e st = None"
| "fetcher_loop (Suc fuel) e st =
     (let (fired, st1) = select_ctx e (urls st \<noteq> []) st in
      if fired then Some (fetcher_return st1)
      else (case urls st1 of
              [] \<Rightarrow> None
            | url # rest \<Rightarrow>
                (let st2 = st1\<lparr>urls := rest,
                               active_data := AddUint32 (active_data st1) GITHUB_FETCH 1\<rparr> in
                 if new_request_err e url
                 then Some (fetcher_return
                        ((log_call LOG_ERROR ''Stage 1 - Get Github Repos: Error setting up request.'' st2)
                           \<lparr>error_data := AddUint32 (error_data st2) GITHUB_FETCH 1,
                            active_data := AddUint32 (active_data st2) GITHUB_FETCH minus_one\<rparr>))
                 else (let (returned, st3) = do_request e 1 st2 in
                       if returned then Some (fetcher_return st3)
                       else fetcher_loop fuel e st3))))"




section \<open>Stage 2: \<open>parse_github_response\<close> (lines 513--602)\<close>

text \<open>
  In stages 2 to 4 the driver starts one goroutine per unit of work.  The model runs each
  of them to its end where it is started: one of the schedules of the program, and the one
  in which the output queue has the order of the input.
\<close>

record decoder = world +
  repos :: "Repo list"
  repos_closed :: bool

text \<open>The loop over the decoded records (lines 579--590); the flag says that the
  goroutine returned on \<^verbatim>\<open>ctx.Done()\<close>.\<close>

fun forward_repos :: "env \<Rightarrow> bool \<Rightarrow> Repo list \<Rightarrow> decoder \<Rightarrow> bool \<times> decoder" where
  "forward_repos e fork_filter [] st = (False, st)"
| "forward_repos e fork_filter (repo # r) st =
     (if Fork repo \<and> fork_filter
      then forward_repos e fork_filter r
             (log_call LOG_DEBUG ''Stage 2 - Parse URLs: Skipping based on the fork filter.'' st)
      else (let (fired, st1) = select_ctx e True st in
            if fired then (True, st1)
            else forward_repos e fork_filter r
                   (st1\<lparr>repos := repos st1 @ [repo],
                        total_data := AddUint32 (total_data st1) REMOTE_REPOS 1\<rparr>)))"

text \<open>The goroutine of one body (lines 562--594).\<close>

fun decode_body :: "env \<Rightarrow> bool \<Rightarrow> body \<Rightarrow> decoder \<Rightarrow> decoder" where
  "decode_body e fork_filter [] st = st"
| "decode_body e fork_filter (DecodeError # rest) st =
     (log_call LOG_ERROR ''Stage 2 - Parse URLs: Error parsing body.'' st)
       \<lparr>error_data := AddUint32 (error_data st) GITHUB_PARSE 1,
        active_data := AddUint32 (active_data st) GITHUB_PARSE minus_one\<rparr>"
| "decode_body e fork_filter (Decoded r # rest) st =
     (let (returned, st1) = forward_repos e fork_filter r st in
      if returned then st1
      else decode_body e fork_filter rest
             (st1\<lparr>completion_data := AddUint32 (completion_data st1) GITHUB_PARSE 1,
                  active_data := AddUint32 (active_data st1) GITHUB_PARSE minus_one\<rparr>))"

text \<open>The driver (lines 538--596) on the bodies that its input queue delivers before it
  is closed.\<close>

fun parse_loop :: "env \<Rightarrow> bool \<Rightarrow> body list \<Rightarrow> decoder \<Rightarrow> decoder" where
  "parse_loop e fork_filter [] st =
     (let (fired, st1) = select_ctx e True st in
      if fired then st1\<lparr>repos_closed := True\<rparr>
      else log_call LOG_INFO ''Stage 2 - Parse URLs: Completed.''
             ((log_call LOG_DEBUG ''Stage 2 - Parse URLs: cleared queue'' st1)\<lparr>repos_closed := True\<rparr>))"
| "parse_loop e fork_filter (b # bs) st =
     (let (fired, st1) = select_ctx e True st in
      if fired then st1\<lparr>repos_closed := True\<rparr>
      else (let (err, st2) = select_ctx e True st1 in
            if err then st2\<lparr>repos_closed := True\<rparr>
            else parse_loop e fork_filter bs
                   (decode_body e fork_filter b
                      (st2\<lparr>active_data := AddUint32 (active_data st2) GITHUB_PARSE 1\<rparr>))))"

definition parse_github_response :: "env \<Rightarrow> body list \<Rightarrow> bool \<Rightarrow> world \<Rightarrow> decoder" where
  "parse_github_response e repo_data fork_filter w =
     parse_loop e fork_filter repo_data (world.extend w (decoder.fields [] False))"

section \<open>Stage 3: \<open>git_ops_clone\<close> (lines 604--708)\<close>

record cloner = world +
  local_repos :: "Repo list"
  local_repos_closed :: bool

text \<open>The goroutine of one clone (lines 656--703).\<close>

definition clone_task :: "env \<Rightarrow> string \<Rightarrow> string \<Rightarrow> Repo \<Rightarrow> cloner \<Rightarrow> cloner" where
  "clone_task e git_path working_dir repo st =
     (let st1 = st\<lparr>commands := commands st @ [[git_path, ''clone'', ''-n'', ''-q'', Clone_url repo]],
                   clock := Suc (clock st)\<rparr> in
      case cmd_run e (clock st) of
        RunOk out \<Rightarrow>
          (let repo1 = repo\<lparr>local_path := filepath_Join e working_dir (Name repo)\<rparr>;
               (fired, st2) = select_ctx e True st1
           in if fired then st2
              else st2\<lparr>local_repos := local_repos st2 @ [repo1],
                       total_data := AddUint32 (total_data st2) LOCAL_REPOS 2,
                       completion_data := AddUint32 (completion_data st2) GIT_OPS_CLONE 1,
                       active_data := AddUint32 (active_data st2) GIT_OPS_CLONE minus_one\<rparr>)
      | RunKilled \<Rightarrow>
          (log_call LOG_DEBUG ''Stage 3 - Clone Repos: killed by application interrupt.'' st1)
            \<lparr>error_data := AddUint32 (error_data st1) GIT_OPS_CLONE 1,
             active_data := AddUint32 (active_data st1) GIT_OPS_CLONE minus_one\<rparr>
      | RunExitError \<Rightarrow>
          (log_call LOG_ERROR ''Stage 3 - Clone Repos: Got an error.'' st1)
            \<lparr>error_data := AddUint32 (error_data st1) GIT_OPS_CLONE 1,
             active_data := AddUint32 (active_data st1) GIT_OPS_CLONE minus_one\<rparr>
      | RunFailed \<Rightarrow>
          (log_call LOG_ERROR ''Stage 3 - Clone Repos: Got an error.'' st1)
            \<lparr>error_data := AddUint32 (error_data st1) GIT_OPS_CLONE 1,
             active_data := AddUint32 (active_data st1) GIT_OPS_CLONE minus_one\<rparr>)"

text \<open>What the driver does with one record that it has received (lines 643--703); the
  flag says that the driver returned.\<close>

definition clone_record ::
  "env \<Rightarrow> string \<Rightarrow> string \<Rightarrow> u64 \<Rightarrow> Repo \<Rightarrow> cloner \<Rightarrow> bool \<times> cloner" where
  "clone_record e git_path working_dir size_filter repo st =
     (if size_filter > 0 \<and> Size repo > size_filter
      then (False,
            log_call LOG_INFO ''Stage 3 - Clone Repos: Skipping based on filter.''
              (st\<lparr>completion_data := AddUint32 (completion_data st) GIT_OPS_CLONE 1\<rparr>))
      else (let (err, st1) = select_ctx e True st in
            if err then (True, st1\<lparr>local_repos_closed := True\<rparr>)
            else (False,
                  clone_task e git_path working_dir repo
                    (st1\<lparr>active_data := AddUint32 (active_data st1) GIT_OPS_CLONE 1\<rparr>))))"

fun clone_loop ::
  "env \<Rightarrow> string \<Rightarrow> string \<Rightarrow> u64 \<Rightarrow> Repo list \<Rightarrow> cloner \<Rightarrow> cloner" where
  "clone_loop e git_path working_dir size_filter [] st =
     (let (fired, st1) = select_ctx e True st in
      if fired then st1\<lparr>local_repos_closed := True\<rparr>
      else log_call LOG_INFO ''Stage 3 - Clone Repos: Completed.''
             ((log_call LOG_DEBUG ''Stage 3 - Clone Repos: cleared queue'' st1)
                \<lparr>local_repos_closed := True\<rparr>))"
| "clone_loop e git_path working_dir size_filter (repo # rs) st =
     (let (fired, st1) = select_ctx e True st in
      if fired then st1\<lparr>local_repos_closed := True\<rparr>
      else (let (returned, st2) = clone_record e git_path working_dir size_filter repo st1 in
            if returned then st2
            else clone_loop e git_path working_dir size_filter rs st2))"

definition git_ops_clone ::
  "env \<Rightarrow> Repo list \<Rightarrow> string \<Rightarrow> string \<Rightarrow> u64 \<Rightarrow> world \<Rightarrow> cloner" where
  "git_ops_clone e repos_in git_path working_dir size_filter w =
     clone_loop e git_path working_dir size_filter repos_in (world.extend w (cloner.fields [] False))"



section \<open>Stage 4: \<open>git_ops_shortlog\<close> (lines 710--844)\<close>

text \<open>Line 815:
  \<^verbatim>\<open>email := full_author[strings.LastIndex(full_author, "<")+1 : len(full_author)-1]\<close>\<close>

definition extract_email :: "string \<Rightarrow> panic + string" where
  "extract_email full_author =
     slice full_author (LastIndex full_author ''<'' + 1) (int (length full_author) - 1)"

text \<open>Line 719, in the order of the map literal.\<close>

definition params_containers :: "(i8 \<times> string list) list" where
  "params_containers =
     [(ROLE_AUTHOR, [''--no-pager'', ''shortlog'', ''--all'', ''-n'', ''-e'', ''-s'']),
      (ROLE_COMMITTER, [''--no-pager'', ''shortlog'', ''--all'', ''-n'', ''-e'', ''-s'', ''-c''])]"

text \<open>\<open>repo_store\<close> holds the variable \<^verbatim>\<open>repo\<close> of each iteration of the driver; its index
  is the address \<^verbatim>\<open>&repo\<close> that the goroutines of that iteration put into their
  \<open>EmailContext\<close> values.\<close>

record extractor = world +
  emails :: "string list"
  context_emails :: "EmailContext list"
  outputs_closed :: bool
  repo_store :: "Repo list"
  scan_panic :: "panic option"

text \<open>The scanner loop (lines 813--829); the flag says that the goroutine left the loop
  by \<^verbatim>\<open>return\<close> or by a panic.\<close>

fun scan_lines :: "env \<Rightarrow> addr \<Rightarrow> i8 \<Rightarrow> string list \<Rightarrow> extractor \<Rightarrow> bool \<times> extractor" where
  "scan_lines e a role [] st = (False, st)"
| "scan_lines e a role (full_author # ls) st =
     (case extract_email full_author of
        Inl p \<Rightarrow> (True, st\<lparr>scan_panic := Some p\<rparr>)
      | Inr email \<Rightarrow>
          (let (fired1, st1) = select_ctx e True st in
           if fired1 then (True, st1)
           else (let (fired2, st2) = select_ctx e True (st1\<lparr>emails := emails st1 @ [email]\<rparr>) in
                 if fired2 then (True, st2)
                 else scan_lines e a role ls
                        (st2\<lparr>context_emails := context_emails st2 @
                                 [\<lparr>Repo = a, EmailAddress = email, Role = role\<rparr>],
                             total_data := AddUint32 (total_data st2) GIT_IDENTITIES 1\<rparr>))))"

text \<open>The goroutine of one shortlog invocation (lines 771--838).\<close>

definition shortlog_task ::
  "env \<Rightarrow> string \<Rightarrow> addr \<Rightarrow> i8 \<Rightarrow> string list \<Rightarrow> extractor \<Rightarrow> extractor" where
  "shortlog_task e git_path a role params st =
     (let st1 = st\<lparr>commands := commands st @ [git_path # params], clock := Suc (clock st)\<rparr> in
      case cmd_run e (clock st) of
        RunOk out \<Rightarrow>
          (let (returned, st2) = scan_lines e a role out st1 in
           if returned then st2
           else if scanner_err e (clock st2)
           then (log_call LOG_ERROR ''Stage 4 - Find Emails: Error scanning text'' st2)
                  \<lparr>error_data := AddUint32 (error_data st2) GIT_OPS_LOG 1,
                   active_data := AddUint32 (active_data st2) GIT_OPS_LOG minus_one\<rparr>
           else st2\<lparr>completion_data := AddUint32 (completion_data st2) GIT_OPS_LOG 1,
                    active_data := AddUint32 (active_data st2) GIT_OPS_LOG minus_one\<rparr>)
      | RunKilled \<Rightarrow>
          (log_call LOG_DEBUG ''Stage 4 - Find Emails: killed by interrupt.'' st1)
            \<lparr>error_data := AddUint32 (error_data st1) GIT_OPS_LOG 1,
             active_data := AddUint32 (active_data st1) GIT_OPS_LOG minus_one\<rparr>
      | RunExitError \<Rightarrow>
          (log_call LOG_ERROR ''Stage 4 - Find Emails: Got an error.'' st1)
            \<lparr>error_data := AddUint32 (error_data st1) GIT_OPS_LOG 1,
             active_data := AddUint32 (active_data st1) GIT_OPS_LOG minus_one\<rparr>
      | RunFailed \<Rightarrow>
          (log_call LOG_ERROR ''Stage 4 - Find Emails: Got an error.'' st1)
            \<lparr>error_data := AddUint32 (error_data st1) GIT_OPS_LOG 1,
             active_data := AddUint32 (active_data st1) GIT_OPS_LOG minus_one\<rparr>)"

text \<open>The loop over \<open>params_containers\<close> (lines 756--839) for the repository at address
  \<open>a\<close>; the flag says that the driver returned, or that a goroutine has panicked.\<close>

fun shortlog_roles ::
  "env \<Rightarrow> string \<Rightarrow> addr \<Rightarrow> (i8 \<times> string list) list \<Rightarrow> extractor \<Rightarrow> bool \<times> extractor" where
  "shortlog_roles e git_path a [] st = (False, st)"
| "shortlog_roles e git_path a ((role, params) # rest) st =
     (let (err, st1) =
            (if try_acquire e (clock st) then (False, st\<lparr>clock := Suc (clock st)\<rparr>)
             else select_ctx e True (st\<lparr>clock := Suc (clock st)\<rparr>))
      in if err then (True, st1\<lparr>outputs_closed := True\<rparr>)
         else (let st2 = shortlog_task e git_path a role params
                           (st1\<lparr>active_data := AddUint32 (active_data st1) GIT_OPS_LOG 1\<rparr>)
               in if scan_panic st2 \<noteq> None then (True, st2)
                  else shortlog_roles e git_path a rest st2))"

fun shortlog_loop :: "env \<Rightarrow> string \<Rightarrow> Repo list \<Rightarrow> extractor \<Rightarrow> extractor" where
  "shortlog_loop e git_path [] st =
     (let (fired, st1) = select_ctx e True st in
      if fired then st1\<lparr>outputs_closed := True\<rparr>
      else log_call LOG_INFO ''Stage 4 - Find Emails: Completed.''
             ((log_call LOG_DEBUG ''Stage 4 - Find Emails: completed queue'' st1)
                \<lparr>outputs_closed := True\<rparr>))"
| "shortlog_loop e git_path (repo # rs) st =
     (let (fired, st1) = select_ctx e True st in
      if fired then st1\<lparr>outputs_closed := True\<rparr>
      else (let st2 = st1\<lparr>repo_store := repo_store st1 @ [repo], clock := Suc (clock st1)\<rparr>;
                order = (if author_first e (clock st1) then params_containers
                         else rev params_containers);
                (returned, st3) = shortlog_roles e git_path (length (repo_store st1)) order st2
            in if returned then st3 else shortlog_loop e git_path rs st3))"

definition git_ops_shortlog :: "env \<Rightarrow> Repo list \<Rightarrow> string \<Rightarrow> world \<Rightarrow> extractor" where
  "git_ops_shortlog e local_repos_in git_path w =
     shortlog_loop e git_path local_repos_in (world.extend w (extractor.fields [] [] False [] None))"

section \<open>Stages 5 and 6: \<open>emails_dedup\<close> and \<open>emails_by_repo\<close> (lines 846--880)\<close>

text \<open>Each function is run on the sequence of values that its input queue delivers
  before it is closed.  \<^verbatim>\<open>uint\<close> has 64 bits here.\<close>

record dedup = world +
  emails_deduped :: "string \<rightharpoonup> u64"
  dedup_processed :: u64
  dedup_done :: bool

fun dedup_loop :: "string list \<Rightarrow> dedup \<Rightarrow> dedup" where
  "dedup_loop [] st = st"
| "dedup_loop (email # rest) st =
     dedup_loop rest
       (st\<lparr>emails_deduped :=
              (if emails_deduped st email = None then (emails_deduped st)(email \<mapsto> 0)
               else emails_deduped st),
           completion_data := AddUint32 (completion_data st) EMAILS_DEDUP 1,
           dedup_processed := dedup_processed st + 1\<rparr>)"

definition emails_dedup :: "string list \<Rightarrow> world \<Rightarrow> dedup" where
  "emails_dedup emails_in w =
     log_call LOG_INFO ''Stage 5a - Dedup Emails: Completed.''
       ((dedup_loop emails_in (world.extend w (dedup.fields Map.empty 0 False)))
          \<lparr>dedup_done := True\<rparr>)"

record grouper = world +
  emails_grouped :: "EmailGroupByRepoKey \<rightharpoonup> i8"
  grouped_processed :: u64
  grouped_done :: bool

text \<open>Line 872: \<^verbatim>\<open>emails_grouped[key] |= context.Role\<close>; a key that is not in the map reads
  as 0.\<close>

definition or_role ::
  "(EmailGroupByRepoKey \<rightharpoonup> i8) \<Rightarrow> EmailContext \<Rightarrow> (EmailGroupByRepoKey \<rightharpoonup> i8)" where
  "or_role m c =
     (let k = \<lparr>Email = EmailAddress c, RepoPtr = Repo c\<rparr> in
      m(k \<mapsto> (case m k of None \<Rightarrow> 0 | Some v \<Rightarrow> v) OR Role c))"

fun grouper_loop :: "EmailContext list \<Rightarrow> grouper \<Rightarrow> grouper" where
  "grouper_loop [] st = st"
| "grouper_loop (c # rest) st =
     grouper_loop rest
       (st\<lparr>emails_grouped := or_role (emails_grouped st) c,
           completion_data := AddUint32 (completion_data st) EMAILS_GROUPED 1,
           grouped_processed := grouped_processed st + 1\<rparr>)"

definition emails_by_repo :: "EmailContext list \<Rightarrow> world \<Rightarrow> grouper" where
  "emails_by_repo contexts w =
     log_call LOG_INFO ''Stage 5b - Emails per Repo: Completed.''
       ((grouper_loop contexts (world.extend w (grouper.fields Map.empty 0 False)))
          \<lparr>grouped_done := True\<rparr>)"

section \<open>The report: \<open>create_output_json\<close> (lines 912--947)\<close>

text \<open>\<open>FmtEmailPerRepo\<close>; its URL field is \<open>RepoUrl\<close> in the source, as the one of
  \<open>FmtRepoPerEmail\<close>, whose field \<open>Role\<close> is \<open>RoleName\<close> here.\<close>

record FmtEmailPerRepo =
  PerRepoUrl :: string
  Emails :: "string \<rightharpoonup> string"

text \<open>\<^verbatim>\<open>role_reference[role_id]\<close>: a key that is not in a Go map reads as the empty string.\<close>

definition role_reference :: "i8 \<Rightarrow> string" where
  "role_reference role_id =
     (if role_id = ROLE_AUTHOR then ROLE_NAME_AUTHOR
      else if role_id = ROLE_COMMITTER then ROLE_NAME_COMMITTER
      else if role_id = ROLE_MASK_BOTH then ROLE_NAME_BOTH
      else [])"

text \<open>Lines 921--931: the email under which the entry is filed, and its domain.\<close>

definition email_and_domain :: "string \<Rightarrow> string \<times> string" where
  "email_and_domain email =
     (if email = [] then (''!blank!'', ''!none!'')
      else (let at_index = LastIndex email ''@'' in
            if at_index > 0 then (email, drop (nat (at_index + 1)) email)
            else (email, ''!none!'')))"

record report =
  json_repos :: "string \<rightharpoonup> FmtEmailPerRepo"
  json_emails :: "string \<rightharpoonup> (string \<rightharpoonup> FmtRepoPerEmail list)"

text \<open>Reading \<^verbatim>\<open>emails[domain]\<close> and \<^verbatim>\<open>emails[domain][email]\<close>: a key that is not in the map
  reads as the nil map and as the nil slice.\<close>

definition domain_map ::
  "(string \<rightharpoonup> (string \<rightharpoonup> FmtRepoPerEmail list)) \<Rightarrow> string \<Rightarrow> (string \<rightharpoonup> FmtRepoPerEmail list)" where
  "domain_map m domain = (case m domain of None \<Rightarrow> Map.empty | Some per_email \<Rightarrow> per_email)"

definition email_list ::
  "(string \<rightharpoonup> (string \<rightharpoonup> FmtRepoPerEmail list)) \<Rightarrow> string \<Rightarrow> string \<Rightarrow> FmtRepoPerEmail list" where
  "email_list m domain email = (case domain_map m domain email of None \<Rightarrow> [] | Some l \<Rightarrow> l)"

text \<open>The body of the loop (lines 921--945) for one entry of the map; \<open>store\<close> reads the
  \<open>Repo\<close> behind the pointer of the key.\<close>

definition report_entry ::
  "(addr \<Rightarrow> Repo) \<Rightarrow> report \<Rightarrow> EmailGroupByRepoKey \<times> i8 \<Rightarrow> report" where
  "report_entry store out entry =
     (let group_by_key = fst entry;
          role_id = snd entry;
          (email, domain) = email_and_domain (Email group_by_key);
          repo = store (RepoPtr group_by_key);
          repos1 = (if json_repos out (Name repo) = None
                    then (json_repos out)
                           (Name repo \<mapsto> \<lparr>PerRepoUrl = Clone_url repo, Emails = Map.empty\<rparr>)
                    else json_repos out);
          emails1 = (if json_emails out domain = None
                     then (json_emails out)(domain \<mapsto> Map.empty)
                     else json_emails out);
          emails2 = (if domain_map emails1 domain email = None
                     then emails1(domain \<mapsto> (domain_map emails1 domain)(email \<mapsto> []))
                     else emails1);
          emails3 = emails2
                      (domain \<mapsto> (domain_map emails2 domain)
                         (email \<mapsto> email_list emails2 domain email @
                            [\<lparr>RepoName = Name repo, RoleName = role_reference role_id,
                              RepoUrl = Clone_url repo\<rparr>]));
          repos2 = (case repos1 (Name repo) of
                      None \<Rightarrow> repos1
                    | Some f \<Rightarrow>
                        repos1(Name repo \<mapsto>
                          f\<lparr>Emails := (Emails f)(email \<mapsto> role_reference role_id)\<rparr>))
      in \<lparr>json_repos = repos2, json_emails = emails3\<rparr>)"

text \<open>\<^verbatim>\<open>range emails_grouped\<close> visits the keys of the map in an order that Go leaves open:
  \<open>order\<close> is that order.\<close>

definition create_output_json ::
  "(addr \<Rightarrow> Repo) \<Rightarrow> (EmailGroupByRepoKey \<rightharpoonup> i8) \<Rightarrow> EmailGroupByRepoKey list \<Rightarrow> report" where
  "create_output_json store emails_grouped_in order =
     foldl (report_entry store) \<lparr>json_repos = Map.empty, json_emails = Map.empty\<rparr>
       (map (\<lambda>k. (k, case emails_grouped_in k of None \<Rightarrow> 0 | Some v \<Rightarrow> v)) order)"



section \<open>Notions used in the statements below\<close>

text \<open>The entry that the report files under a key of the grouped map.\<close>

definition fmt_entry :: "(addr \<Rightarrow> Repo) \<Rightarrow> EmailGroupByRepoKey \<times> i8 \<Rightarrow> FmtRepoPerEmail" where
  "fmt_entry store entry =
     \<lparr>RepoName = Name (store (RepoPtr (fst entry))), RoleName = role_reference (snd entry),
      RepoUrl = Clone_url (store (RepoPtr (fst entry)))\<rparr>"

text \<open>The records that a body delivers: those of its arrays before the first decoding
  error.\<close>

fun decoded_repos :: "body \<Rightarrow> Repo list" where
  "decoded_repos [] = []"
| "decoded_repos (DecodeError # rest) = []"
| "decoded_repos (Decoded r # rest) = r @ decoded_repos rest"

text \<open>A run that is not cancelled: the token is not set and no interrupt arrives.\<close>

definition quiet :: "env \<Rightarrow> 'a world_scheme \<Rightarrow> bool" where
  "quiet e st \<longleftrightarrow> \<not> ctx_cancelled st \<and> (\<forall>n. \<not> interrupt_at e n)"

text \<open>The roles of the two shortlog queries, and the values that have a label.\<close>

definition role_of_query :: "i8 \<Rightarrow> bool" where
  "role_of_query r \<longleftrightarrow> r = ROLE_AUTHOR \<or> r = ROLE_COMMITTER"

definition meaningful_role :: "i8 \<Rightarrow> bool" where
  "meaningful_role r \<longleftrightarrow> r = ROLE_AUTHOR \<or> r = ROLE_COMMITTER \<or> r = ROLE_MASK_BOTH"

text \<open>The state in which \<open>main\<close> starts the stages (lines 1146--1152), and an environment
  without interrupt in which every HTTP request fails and every subprocess prints one
  shortlog line.\<close>

definition world0 :: world where
  "world0 =
     \<lparr>active_data = (\<lambda>i. 0), error_data = (\<lambda>i. 0), completion_data = (\<lambda>i. 0),
      total_data = (\<lambda>i. 0), ctx_cancelled = False, clock = 0, logged = [], commands = []\<rparr>"

definition env0 :: env where
  "env0 =
     \<lparr>interrupt_at = (\<lambda>n. False), prefer_done = (\<lambda>n. True), new_request_err = (\<lambda>u. False),
      http_do = (\<lambda>n. DoErr), cmd_run = (\<lambda>n. RunOk [''2 Ann <ann@x.org>'']),
      scanner_err = (\<lambda>n. False), try_acquire = (\<lambda>n. True), author_first = (\<lambda>n. True),
      filepath_Join = (\<lambda>d n. d @ ''/'' @ n)\<rparr>"

text \<open>The state in which the goroutine of stage 1 starts for a seed URL, and an
  environment in which the first two requests fail and the later ones succeed.\<close>

definition fetcher0 :: fetcher where
  "fetcher0 = world.extend world0 (fetcher.fields [''https://x/repos''] False [] False [] 0 None)"

definition env1 :: env where
  "env1 = env0\<lparr>http_do := (\<lambda>n. if n < 2 then DoErr else DoOk Map.empty [])\<rparr>"




definition repo0 :: Repo where
  "repo0 = \<lparr>Name = ''tool'', Clone_url = ''https://x/tool.git'', Size = 10, Fork = False,
            local_path = []\<rparr>"

definition fork0 :: Repo where
  "fork0 = \<lparr>Name = ''copy'', Clone_url = ''https://x/copy.git'', Size = 2000, Fork = True,
            local_path = []\<rparr>"

section \<open>Lemmas on the string functions\<close>

lemma LastIndex_lower: "- 1 \<le> LastIndex s sub"
  by (induction s) (auto simp: Let_def)

lemma LastIndex_upper: "sub \<noteq> [] \<Longrightarrow> LastIndex s sub < int (length s)"
  by (induction s) (auto simp: Let_def)

lemma LastIndex_char_absent:
  "c \<notin> set s \<Longrightarrow> LastIndex s [c] = - 1"
  by (induction s) (auto simp: Let_def HasPrefix_def)

lemma LastIndex_char_after:
  "c \<notin> set post \<Longrightarrow> LastIndex (pre @ c # post) [c] = int (length pre)"
  by (induction pre) (auto simp: Let_def HasPrefix_def LastIndex_char_absent)

lemma LastIndex_char_last:
  "s \<noteq> [] \<Longrightarrow> LastIndex s [c] = int (length s) - 1 \<longleftrightarrow> last s = c"
proof (induction s)
  case Nil
  then show ?case by simp
next
  case (Cons a s)
  have up: "LastIndex s [c] < int (length s)"
    by (rule LastIndex_upper) simp
  have lo: "- 1 \<le> LastIndex s [c]"
    by (rule LastIndex_lower)
  show ?case
  proof (cases "s = []")
    case True
    then show ?thesis by (simp add: Let_def HasPrefix_def)
  next
    case False
    with Cons.IH up lo show ?thesis
      by (auto simp: Let_def HasPrefix_def)
  qed
qed

section \<open>C10: the slice of the email extraction\<close>

text \<open>
  C10, as stated: the slice of line 815 is in bounds for every scanned line, the empty
  line included.  It is not: on the empty line the upper bound is \<open>-1\<close>.
\<close>

theorem extract_email_empty_line_panics:
  "extract_email [] = Inl SliceBoundsOutOfRange"
  by (simp add: extract_email_def slice_def)

text \<open>
  C10, amended: the slice is in bounds exactly for the nonempty lines whose last
  character is not \<open><\<close>; every nonempty line without any \<open><\<close> is among them, and such a
  line yields all of itself but its last character.
\<close>

theorem extract_email_in_bounds_iff:
  "((\<exists>email. extract_email line = Inr email) \<longleftrightarrow> line \<noteq> [] \<and> last line \<noteq> CHR ''<'')
   \<and> (line \<noteq> [] \<and> CHR ''<'' \<notin> set line \<longrightarrow> extract_email line = Inr (butlast line))"
proof -
  have up: "LastIndex line ''<'' < int (length line)"
    by (rule LastIndex_upper) simp
  have lo: "- 1 \<le> LastIndex line ''<''"
    by (rule LastIndex_lower)
  have lst: "LastIndex line ''<'' = int (length line) - 1 \<longleftrightarrow> last line = CHR ''<''"
    if "line \<noteq> []"
    using that by (rule LastIndex_char_last)
  have a: "(\<exists>email. extract_email line = Inr email) \<longleftrightarrow> line \<noteq> [] \<and> last line \<noteq> CHR ''<''"
  proof (cases "line = []")
    case True
    then show ?thesis by (simp add: extract_email_def slice_def)
  next
    case False
    with up lo lst [OF False] show ?thesis
      by (auto simp: extract_email_def slice_def)
  qed
  have b: "extract_email line = Inr (butlast line)"
    if "line \<noteq> []" "CHR ''<'' \<notin> set line"
  proof -
    have "LastIndex line ''<'' = - 1"
      using that(2) by (rule LastIndex_char_absent)
    with that(1) show ?thesis
      by (simp add: extract_email_def slice_def butlast_conv_take nat_diff_distrib')
  qed
  from a b show ?thesis by simp
qed

theorem extract_email_in_bounds_witness:
  "''ann'' \<noteq> [] \<and> CHR ''<'' \<notin> set ''ann'' \<and> last ''ann'' \<noteq> CHR ''<''
   \<and> extract_email ''ann'' = Inr ''an''"
  using extract_email_in_bounds_iff [of "''ann''"] by simp

section \<open>Lemmas on the records of the stages\<close>

lemma dedup_start:
  "emails_deduped (world.extend w (dedup.fields a b c)) = a"
  by (simp add: world.extend_def dedup.fields_def world.defs dedup.defs)

lemma grouper_start:
  "emails_grouped (world.extend w (grouper.fields a b c)) = a"
  by (simp add: world.extend_def grouper.fields_def world.defs grouper.defs)

lemma extractor_start:
  "context_emails (world.extend w (extractor.fields a b c d p)) = b"
  by (simp add: world.extend_def extractor.fields_def world.defs extractor.defs)

section \<open>C2: deduplication\<close>

lemma dedup_loop_map:
  "emails_deduped (dedup_loop xs st) =
     (\<lambda>email. if email \<in> set xs \<and> emails_deduped st email = None then Some 0
               else emails_deduped st email)"
proof (induction xs arbitrary: st)
  case Nil
  show ?case by simp
next
  case (Cons x xs)
  show ?case
    unfolding dedup_loop.simps Cons.IH
    by (rule ext) auto
qed

lemma emails_dedup_map:
  "emails_deduped (emails_dedup xs w) = (\<lambda>email. if email \<in> set xs then Some 0 else None)"
  by (simp add: emails_dedup_def log_call_def dedup_loop_map dedup_start cong: if_cong)

text \<open>
  C2: whatever the order in which the raw emails arrive, the deduplicated map is the
  same; its keys are the distinct emails that arrived, and its size is their number.
\<close>

theorem emails_dedup_order_independent:
  "(mset xs = mset ys \<longrightarrow>
      emails_deduped (emails_dedup xs w) = emails_deduped (emails_dedup ys w))
   \<and> dom (emails_deduped (emails_dedup xs w)) = set xs
   \<and> card (dom (emails_deduped (emails_dedup xs w))) = card (set xs)"
proof -
  have d: "dom (emails_deduped (emails_dedup xs w)) = set xs"
    unfolding emails_dedup_map by (auto simp: dom_def)
  have "emails_deduped (emails_dedup xs w) = emails_deduped (emails_dedup ys w)"
    if "mset xs = mset ys"
  proof -
    from that have "set xs = set ys"
      by (rule mset_eq_setD)
    then show ?thesis
      unfolding emails_dedup_map by simp
  qed
  with d show ?thesis by simp
qed

theorem emails_dedup_witness:
  "mset [''a@x'', ''b@x'', ''a@x''] = mset [''a@x'', ''a@x'', ''b@x'']
   \<and> emails_deduped (emails_dedup [''a@x'', ''b@x'', ''a@x''] world0)
      = emails_deduped (emails_dedup [''a@x'', ''a@x'', ''b@x''] world0)
   \<and> dom (emails_deduped (emails_dedup [''a@x'', ''b@x'', ''a@x''] world0)) = {''a@x'', ''b@x''}
   \<and> card (dom (emails_deduped (emails_dedup [''a@x'', ''b@x'', ''a@x''] world0))) = 2"
proof -
  have m: "mset [''a@x'', ''b@x'', ''a@x''] = mset [''a@x'', ''a@x'', ''b@x'']"
    by simp
  note t = emails_dedup_order_independent
    [of "[''a@x'', ''b@x'', ''a@x'']" "[''a@x'', ''a@x'', ''b@x'']" world0]
  have a: "emails_deduped (emails_dedup [''a@x'', ''b@x'', ''a@x''] world0)
      = emails_deduped (emails_dedup [''a@x'', ''a@x'', ''b@x''] world0)"
    by (rule t [THEN conjunct1, THEN mp, OF m])
  have s: "set [''a@x'', ''b@x'', ''a@x''] = {''a@x'', ''b@x''}"
    by auto
  have b: "dom (emails_deduped (emails_dedup [''a@x'', ''b@x'', ''a@x''] world0)) = {''a@x'', ''b@x''}"
    unfolding t [THEN conjunct2, THEN conjunct1] by (rule s)
  have c: "card (dom (emails_deduped (emails_dedup [''a@x'', ''b@x'', ''a@x''] world0))) = 2"
    unfolding t [THEN conjunct2, THEN conjunct2] s by simp
  show ?thesis
    by (intro conjI m a b c)
qed

section \<open>C1: grouping\<close>

lemma grouper_loop_fold:
  "emails_grouped (grouper_loop cs st) = fold (\<lambda>c m. or_role m c) cs (emails_grouped st)"
  by (induction cs arbitrary: st) simp_all

lemma emails_by_repo_fold:
  "emails_grouped (emails_by_repo cs w) = fold (\<lambda>c m. or_role m c) cs Map.empty"
  by (simp add: emails_by_repo_def log_call_def grouper_loop_fold grouper_start)

lemma or_role_commute: "or_role (or_role m a) b = or_role (or_role m b) a"
  by (rule ext) (auto simp: or_role_def Let_def or.assoc or.commute or.left_commute split: option.splits)

lemma or_role_idem: "or_role (or_role m a) a = or_role m a"
  by (rule ext) (auto simp: or_role_def Let_def or.assoc split: option.splits)

lemma fold_or_role_commute:
  "or_role (fold (\<lambda>c m. or_role m c) cs m) a = fold (\<lambda>c m. or_role m c) cs (or_role m a)"
  by (induction cs arbitrary: m) (simp_all add: or_role_commute)

lemma fold_or_role_absorb:
  "c \<in> set cs \<Longrightarrow> or_role (fold (\<lambda>c m. or_role m c) cs m) c = fold (\<lambda>c m. or_role m c) cs m"
proof (induction cs arbitrary: m)
  case Nil
  then show ?case by simp
next
  case (Cons x xs)
  show ?case
  proof (cases "c = x")
    case True
    then show ?thesis
      by (simp add: fold_or_role_commute or_role_idem)
  next
    case False
    with Cons show ?thesis by simp
  qed
qed

lemma fold_or_role_lookup:
  "fold (\<lambda>c m. or_role m c) cs m k =
     (if k \<in> (\<lambda>c. \<lparr>Email = EmailAddress c, RepoPtr = Repo c\<rparr>) ` set cs
      then Some (fold (\<lambda>c v. v OR Role c)
                   (filter (\<lambda>c. \<lparr>Email = EmailAddress c, RepoPtr = Repo c\<rparr> = k) cs)
                   (case m k of None \<Rightarrow> 0 | Some v \<Rightarrow> v))
      else m k)"
proof (induction cs arbitrary: m)
  case Nil
  show ?case by simp
next
  case (Cons x xs)
  have none: "filter (\<lambda>c. \<lparr>Email = EmailAddress c, RepoPtr = Repo c\<rparr> = k) xs = []"
    if "k \<notin> (\<lambda>c. \<lparr>Email = EmailAddress c, RepoPtr = Repo c\<rparr>) ` set xs"
    using that by (auto simp: filter_empty_conv)
  show ?case
    unfolding fold_Cons comp_apply Cons.IH
    using none by (auto simp: or_role_def Let_def)
qed

text \<open>
  C1: the role stored under a key is the bitwise OR, from 0, of the roles of the
  associations received for that key, and only the keys received are in the map; the map
  does not depend on the order of arrival; an association that has already been received
  changes nothing when it arrives again; author and committer for one key give the value
  with both bits, in either order.
\<close>

theorem emails_by_repo_or_fold:
  "emails_grouped (emails_by_repo cs w) k =
     (if k \<in> (\<lambda>c. \<lparr>Email = EmailAddress c, RepoPtr = Repo c\<rparr>) ` set cs
      then Some (fold (\<lambda>c v. v OR Role c)
                   (filter (\<lambda>c. \<lparr>Email = EmailAddress c, RepoPtr = Repo c\<rparr> = k) cs) 0)
      else None)
   \<and> (mset cs = mset cs' \<longrightarrow>
        emails_grouped (emails_by_repo cs w) = emails_grouped (emails_by_repo cs' w))
   \<and> (c \<in> set cs \<longrightarrow>
        emails_grouped (emails_by_repo (cs @ [c]) w) = emails_grouped (emails_by_repo cs w))
   \<and> emails_grouped
        (emails_by_repo [\<lparr>Repo = r, EmailAddress = em, Role = ROLE_AUTHOR\<rparr>,
                         \<lparr>Repo = r, EmailAddress = em, Role = ROLE_COMMITTER\<rparr>] w)
        \<lparr>Email = em, RepoPtr = r\<rparr> = Some ROLE_MASK_BOTH
   \<and> emails_grouped
        (emails_by_repo [\<lparr>Repo = r, EmailAddress = em, Role = ROLE_COMMITTER\<rparr>,
                         \<lparr>Repo = r, EmailAddress = em, Role = ROLE_AUTHOR\<rparr>] w)
        \<lparr>Email = em, RepoPtr = r\<rparr> = Some ROLE_MASK_BOTH"
proof -
  have a: "emails_grouped (emails_by_repo cs w) k =
     (if k \<in> (\<lambda>c. \<lparr>Email = EmailAddress c, RepoPtr = Repo c\<rparr>) ` set cs
      then Some (fold (\<lambda>c v. v OR Role c)
                   (filter (\<lambda>c. \<lparr>Email = EmailAddress c, RepoPtr = Repo c\<rparr> = k) cs) 0)
      else None)"
    unfolding emails_by_repo_fold fold_or_role_lookup by simp
  have b: "emails_grouped (emails_by_repo cs w) = emails_grouped (emails_by_repo cs' w)"
    if "mset cs = mset cs'"
  proof -
    have "fold (\<lambda>c m. or_role m c) cs = fold (\<lambda>c m. or_role m c) cs'"
      by (rule fold_multiset_equiv [OF _ that]) (simp add: fun_eq_iff or_role_commute)
    then show ?thesis
      unfolding emails_by_repo_fold by simp
  qed
  have c: "emails_grouped (emails_by_repo (cs @ [c]) w) = emails_grouped (emails_by_repo cs w)"
    if "c \<in> set cs"
    unfolding emails_by_repo_fold using that by (simp add: fold_or_role_absorb)
  have d: "emails_grouped
        (emails_by_repo [\<lparr>Repo = r, EmailAddress = em, Role = ROLE_AUTHOR\<rparr>,
                         \<lparr>Repo = r, EmailAddress = em, Role = ROLE_COMMITTER\<rparr>] w)
        \<lparr>Email = em, RepoPtr = r\<rparr> = Some ROLE_MASK_BOTH"
    unfolding emails_by_repo_fold
    by (simp add: or_role_def Let_def ROLE_MASK_BOTH_def)
  have e: "emails_grouped
        (emails_by_repo [\<lparr>Repo = r, EmailAddress = em, Role = ROLE_COMMITTER\<rparr>,
                         \<lparr>Repo = r, EmailAddress = em, Role = ROLE_AUTHOR\<rparr>] w)
        \<lparr>Email = em, RepoPtr = r\<rparr> = Some ROLE_MASK_BOTH"
    unfolding emails_by_repo_fold
    by (simp add: or_role_def Let_def ROLE_MASK_BOTH_def or.commute)
  from a b c d e show ?thesis by blast
qed

theorem emails_by_repo_witness:
  "mset [\<lparr>Repo = 0, EmailAddress = ''a@x'', Role = ROLE_AUTHOR\<rparr>,
         \<lparr>Repo = 0, EmailAddress = ''a@x'', Role = ROLE_COMMITTER\<rparr>]
     = mset [\<lparr>Repo = 0, EmailAddress = ''a@x'', Role = ROLE_COMMITTER\<rparr>,
             \<lparr>Repo = 0, EmailAddress = ''a@x'', Role = ROLE_AUTHOR\<rparr>]
   \<and> \<lparr>Repo = 0, EmailAddress = ''a@x'', Role = ROLE_AUTHOR\<rparr>
       \<in> set [\<lparr>Repo = 0, EmailAddress = ''a@x'', Role = ROLE_AUTHOR\<rparr>,
               \<lparr>Repo = 0, EmailAddress = ''a@x'', Role = ROLE_COMMITTER\<rparr>]
   \<and> emails_grouped
        (emails_by_repo [\<lparr>Repo = 0, EmailAddress = ''a@x'', Role = ROLE_AUTHOR\<rparr>,
                         \<lparr>Repo = 0, EmailAddress = ''a@x'', Role = ROLE_COMMITTER\<rparr>] world0)
      = emails_grouped
        (emails_by_repo [\<lparr>Repo = 0, EmailAddress = ''a@x'', Role = ROLE_COMMITTER\<rparr>,
                         \<lparr>Repo = 0, EmailAddress = ''a@x'', Role = ROLE_AUTHOR\<rparr>] world0)
   \<and> emails_grouped
        (emails_by_repo ([\<lparr>Repo = 0, EmailAddress = ''a@x'', Role = ROLE_AUTHOR\<rparr>,
                          \<lparr>Repo = 0, EmailAddress = ''a@x'', Role = ROLE_COMMITTER\<rparr>]
                         @ [\<lparr>Repo = 0, EmailAddress = ''a@x'', Role = ROLE_AUTHOR\<rparr>]) world0)
      = emails_grouped
        (emails_by_repo [\<lparr>Repo = 0, EmailAddress = ''a@x'', Role = ROLE_AUTHOR\<rparr>,
                         \<lparr>Repo = 0, EmailAddress = ''a@x'', Role = ROLE_COMMITTER\<rparr>] world0)
   \<and> emails_grouped
        (emails_by_repo [\<lparr>Repo = 0, EmailAddress = ''a@x'', Role = ROLE_AUTHOR\<rparr>,
                         \<lparr>Repo = 0, EmailAddress = ''a@x'', Role = ROLE_COMMITTER\<rparr>] world0)
        \<lparr>Email = ''a@x'', RepoPtr = 0\<rparr> = Some ROLE_MASK_BOTH"
proof -
  let ?a = "\<lparr>Repo = 0, EmailAddress = ''a@x'', Role = ROLE_AUTHOR\<rparr>"
  let ?b = "\<lparr>Repo = 0, EmailAddress = ''a@x'', Role = ROLE_COMMITTER\<rparr>"
  have m: "mset [?a, ?b] = mset [?b, ?a]"
    by simp
  have s: "?a \<in> set [?a, ?b]"
    by simp
  note t = emails_by_repo_or_fold [of "[?a, ?b]" world0 _ "[?b, ?a]" ?a 0 "''a@x''"]
  have p: "emails_grouped (emails_by_repo [?a, ?b] world0) = emails_grouped (emails_by_repo [?b, ?a] world0)"
    by (rule t [THEN conjunct2, THEN conjunct1, THEN mp, OF m])
  have d: "emails_grouped (emails_by_repo ([?a, ?b] @ [?a]) world0)
      = emails_grouped (emails_by_repo [?a, ?b] world0)"
    by (rule t [THEN conjunct2, THEN conjunct2, THEN conjunct1, THEN mp, OF s])
  have b: "emails_grouped (emails_by_repo [?a, ?b] world0) \<lparr>Email = ''a@x'', RepoPtr = 0\<rparr>
      = Some ROLE_MASK_BOTH"
    by (rule t [THEN conjunct2, THEN conjunct2, THEN conjunct2, THEN conjunct1])
  show ?thesis
    by (intro conjI m s p d b)
qed

section \<open>C8: the domain key of the report\<close>

lemma email_and_domain_blank: "email_and_domain [] = (''!blank!'', ''!none!'')"
  by (simp add: email_and_domain_def)

lemma email_and_domain_none:
  assumes "email \<noteq> []" "CHR ''@'' \<notin> set (tl email)"
  shows "email_and_domain email = (email, ''!none!'')"
proof (cases email)
  case Nil
  with assms show ?thesis by simp
next
  case (Cons a s)
  with assms have "LastIndex s ''@'' = - 1"
    by (simp add: LastIndex_char_absent)
  with Cons show ?thesis
    by (simp add: email_and_domain_def Let_def HasPrefix_def)
qed

lemma email_and_domain_split:
  assumes "email = loc @ CHR ''@'' # dm" "loc \<noteq> []" "CHR ''@'' \<notin> set dm"
  shows "email_and_domain email = (email, dm)"
proof -
  have "LastIndex email ''@'' = int (length loc)"
    using assms(1,3) by (simp add: LastIndex_char_after)
  moreover have "nat (int (length loc) + 1) = Suc (length loc)"
    by simp
  ultimately show ?thesis
    using assms by (simp add: email_and_domain_def Let_def del: of_nat_Suc)
qed

lemma email_list_report_entry:
  "email_list (json_emails (report_entry store out (k, r))) d e =
     (if email_and_domain (Email k) = (e, d)
      then email_list (json_emails out) d e @ [fmt_entry store (k, r)]
      else email_list (json_emails out) d e)"
  by (cases "email_and_domain (Email k)")
     (auto simp: report_entry_def Let_def email_list_def domain_map_def fmt_entry_def
        split: option.splits)

lemma email_list_foldl:
  "email_list (json_emails (foldl (report_entry store) out entries)) d e =
     email_list (json_emails out) d e @
       map (fmt_entry store) (filter (\<lambda>entry. email_and_domain (Email (fst entry)) = (e, d)) entries)"
proof (induction entries arbitrary: out)
  case Nil
  show ?case by simp
next
  case (Cons x xs)
  obtain k r where x: "x = (k, r)" by (cases x)
  show ?case
    unfolding foldl_Cons Cons.IH x
    by (simp add: email_list_report_entry)
qed

lemma json_emails_report_entry_Some:
  "email_and_domain (Email k) = (e, d) \<Longrightarrow>
   \<exists>pe. json_emails (report_entry store out (k, r)) d = Some pe \<and> pe e \<noteq> None"
  by (auto simp: report_entry_def Let_def email_list_def domain_map_def split: option.splits)

lemma json_emails_report_entry_keeps:
  "json_emails out d = Some pe \<Longrightarrow> pe e \<noteq> None \<Longrightarrow>
   \<exists>pe'. json_emails (report_entry store out x) d = Some pe' \<and> pe' e \<noteq> None"
  by (cases "email_and_domain (Email (fst x))")
     (auto simp: report_entry_def Let_def email_list_def domain_map_def split: option.splits)

lemma json_emails_foldl_keeps:
  "json_emails out d = Some pe \<Longrightarrow> pe e \<noteq> None \<Longrightarrow>
   \<exists>pe'. json_emails (foldl (report_entry store) out entries) d = Some pe' \<and> pe' e \<noteq> None"
proof (induction entries arbitrary: out pe)
  case Nil
  then show ?case by simp
next
  case (Cons x xs)
  from json_emails_report_entry_keeps [OF Cons.prems]
  obtain pe1 where "json_emails (report_entry store out x) d = Some pe1" "pe1 e \<noteq> None"
    by blast
  from Cons.IH [OF this] show ?case by simp
qed

lemma json_emails_foldl_present:
  "(k, r) \<in> set entries \<Longrightarrow> email_and_domain (Email k) = (e, d) \<Longrightarrow>
   \<exists>pe. json_emails (foldl (report_entry store) out entries) d = Some pe \<and> pe e \<noteq> None"
proof (induction entries arbitrary: out)
  case Nil
  then show ?case by simp
next
  case (Cons x xs)
  show ?case
  proof (cases "x = (k, r)")
    case True
    from json_emails_report_entry_Some [OF Cons.prems(2)]
    obtain pe1 where "json_emails (report_entry store out (k, r)) d = Some pe1" "pe1 e \<noteq> None"
      by blast
    from json_emails_foldl_keeps [OF this] True show ?thesis by simp
  next
    case False
    with Cons.prems have "(k, r) \<in> set xs" by simp
    from Cons.IH [OF this Cons.prems(2)] show ?thesis by simp
  qed
qed

text \<open>
  C8: every key of the grouped map is filed in the report under the domain and the email
  that lines 921--931 compute from its email, and nothing else is filed there.  The empty
  email is filed as \<open>!blank!\<close> under \<open>!none!\<close>; a nonempty email with no \<open>@\<close> after its
  first character is filed under \<open>!none!\<close>; an email with an \<open>@\<close> after a nonempty local
  part is filed under what follows its last \<open>@\<close>.
\<close>

theorem report_domain_key:
  "(k \<in> set order \<longrightarrow>
      (\<exists>per_email l.
         json_emails (create_output_json store m order) (snd (email_and_domain (Email k))) = Some per_email
         \<and> per_email (fst (email_and_domain (Email k))) = Some l
         \<and> \<lparr>RepoName = Name (store (RepoPtr k)),
             RoleName = role_reference (case m k of None \<Rightarrow> 0 | Some v \<Rightarrow> v),
             RepoUrl = Clone_url (store (RepoPtr k))\<rparr> \<in> set l))
   \<and> (json_emails (create_output_json store m order) d = Some per_email' \<and> per_email' e = Some l'
        \<and> x \<in> set l' \<longrightarrow>
      (\<exists>k'. k' \<in> set order \<and> email_and_domain (Email k') = (e, d)
            \<and> x = \<lparr>RepoName = Name (store (RepoPtr k')),
                    RoleName = role_reference (case m k' of None \<Rightarrow> 0 | Some v \<Rightarrow> v),
                    RepoUrl = Clone_url (store (RepoPtr k'))\<rparr>))
   \<and> (Email k = [] \<longrightarrow> email_and_domain (Email k) = (''!blank!'', ''!none!''))
   \<and> (Email k \<noteq> [] \<and> CHR ''@'' \<notin> set (tl (Email k)) \<longrightarrow>
        email_and_domain (Email k) = (Email k, ''!none!''))
   \<and> (Email k = loc @ CHR ''@'' # dm \<and> loc \<noteq> [] \<and> CHR ''@'' \<notin> set dm \<longrightarrow>
        email_and_domain (Email k) = (Email k, dm))"
proof -
  let ?entries = "map (\<lambda>k. (k, case m k of None \<Rightarrow> 0 | Some v \<Rightarrow> v)) order"
  let ?R = "create_output_json store m order"
  have lists: "email_list (json_emails ?R) d' e' =
      map (fmt_entry store) (filter (\<lambda>entry. email_and_domain (Email (fst entry)) = (e', d')) ?entries)"
    for d' e'
    unfolding create_output_json_def email_list_foldl
    by (simp add: email_list_def domain_map_def)
  have a: "\<exists>per_email l.
         json_emails ?R (snd (email_and_domain (Email k))) = Some per_email
         \<and> per_email (fst (email_and_domain (Email k))) = Some l
         \<and> \<lparr>RepoName = Name (store (RepoPtr k)),
             RoleName = role_reference (case m k of None \<Rightarrow> 0 | Some v \<Rightarrow> v),
             RepoUrl = Clone_url (store (RepoPtr k))\<rparr> \<in> set l"
    if k: "k \<in> set order"
  proof -
    obtain e0 d0 where ed: "email_and_domain (Email k) = (e0, d0)"
      by (cases "email_and_domain (Email k)")
    from k have "(k, case m k of None \<Rightarrow> 0 | Some v \<Rightarrow> v) \<in> set ?entries"
      by auto
    from json_emails_foldl_present [OF this ed]
    obtain pe l where pe: "json_emails ?R d0 = Some pe" "pe e0 = Some l"
      unfolding create_output_json_def by blast
    then have "l = email_list (json_emails ?R) d0 e0"
      by (simp add: email_list_def domain_map_def)
    with k ed have "fmt_entry store (k, case m k of None \<Rightarrow> 0 | Some v \<Rightarrow> v) \<in> set l"
      unfolding lists by auto
    with pe ed show ?thesis
      by (simp add: fmt_entry_def)
  qed
  have b: "\<exists>k'. k' \<in> set order \<and> email_and_domain (Email k') = (e, d)
            \<and> x = \<lparr>RepoName = Name (store (RepoPtr k')),
                    RoleName = role_reference (case m k' of None \<Rightarrow> 0 | Some v \<Rightarrow> v),
                    RepoUrl = Clone_url (store (RepoPtr k'))\<rparr>"
    if "json_emails ?R d = Some per_email'" "per_email' e = Some l'" "x \<in> set l'"
  proof -
    from that(1,2) have "l' = email_list (json_emails ?R) d e"
      by (simp add: email_list_def domain_map_def)
    with that(3) show ?thesis
      unfolding lists by (auto simp: fmt_entry_def)
  qed
  have c: "Email k = [] \<longrightarrow> email_and_domain (Email k) = (''!blank!'', ''!none!'')"
    by (simp add: email_and_domain_blank)
  have d: "Email k \<noteq> [] \<and> CHR ''@'' \<notin> set (tl (Email k)) \<longrightarrow>
        email_and_domain (Email k) = (Email k, ''!none!'')"
    by (simp add: email_and_domain_none)
  have e: "Email k = loc @ CHR ''@'' # dm \<and> loc \<noteq> [] \<and> CHR ''@'' \<notin> set dm \<longrightarrow>
        email_and_domain (Email k) = (Email k, dm)"
    using email_and_domain_split [of "Email k" loc dm] by blast
  from a b show ?thesis
    by (intro conjI impI c [THEN mp] d [THEN mp] e [THEN mp]) blast+
qed

theorem report_domain_key_witness:
  "\<lparr>Email = ''ann@x.org'', RepoPtr = 0\<rparr> \<in> set [\<lparr>Email = ''ann@x.org'', RepoPtr = 0\<rparr>]
   \<and> ''ann@x.org'' = ''ann'' @ CHR ''@'' # ''x.org'' \<and> ''ann'' \<noteq> [] \<and> CHR ''@'' \<notin> set ''x.org''
   \<and> (\<exists>per_email l x.
         json_emails
           (create_output_json (\<lambda>a. repo0) [\<lparr>Email = ''ann@x.org'', RepoPtr = 0\<rparr> \<mapsto> ROLE_AUTHOR]
              [\<lparr>Email = ''ann@x.org'', RepoPtr = 0\<rparr>]) ''x.org'' = Some per_email
         \<and> per_email ''ann@x.org'' = Some l
         \<and> \<lparr>RepoName = ''tool'', RoleName = ''Author'', RepoUrl = ''https://x/tool.git''\<rparr> \<in> set l
         \<and> x \<in> set l
         \<and> x = \<lparr>RepoName = ''tool'', RoleName = ''Author'', RepoUrl = ''https://x/tool.git''\<rparr>)
   \<and> email_and_domain [] = (''!blank!'', ''!none!'')
   \<and> ''root'' \<noteq> [] \<and> CHR ''@'' \<notin> set (tl ''root'')
   \<and> email_and_domain ''root'' = (''root'', ''!none!'')
   \<and> email_and_domain ''ann@x.org'' = (''ann@x.org'', ''x.org'')"
proof -
  let ?k = "\<lparr>Email = ''ann@x.org'', RepoPtr = 0\<rparr>"
  let ?R = "create_output_json (\<lambda>a. repo0) [?k \<mapsto> ROLE_AUTHOR] [?k]"
  let ?x = "\<lparr>RepoName = ''tool'', RoleName = ''Author'', RepoUrl = ''https://x/tool.git''\<rparr>"
  note t = report_domain_key
    [where k = ?k and order = "[?k]" and store = "\<lambda>a. repo0" and m = "[?k \<mapsto> ROLE_AUTHOR]"
       and loc = "''ann''" and dm = "''x.org''"]
  have i: "?k \<in> set [?k]"
    by simp
  have s: "Email ?k = ''ann'' @ CHR ''@'' # ''x.org'' \<and> ''ann'' \<noteq> [] \<and> CHR ''@'' \<notin> set ''x.org''"
    by simp
  have ed: "email_and_domain (Email ?k) = (Email ?k, ''x.org'')"
    by (rule t [THEN conjunct2, THEN conjunct2, THEN conjunct2, THEN conjunct2, THEN mp, OF s])
  have r: "role_reference ROLE_AUTHOR = ''Author''"
    by (simp add: role_reference_def ROLE_NAME_AUTHOR_def)
  from t [THEN conjunct1, THEN mp, OF i] ed r
  obtain per_email l where pl: "json_emails ?R ''x.org'' = Some per_email"
    "per_email ''ann@x.org'' = Some l" "?x \<in> set l"
    by (auto simp: repo0_def)
  then have "json_emails ?R ''x.org'' = Some per_email \<and> per_email ''ann@x.org'' = Some l \<and> ?x \<in> set l"
    by simp
  from report_domain_key
    [where order = "[?k]" and store = "\<lambda>a. repo0" and m = "[?k \<mapsto> ROLE_AUTHOR]"
       and d = "''x.org''" and e = "''ann@x.org''" and per_email' = per_email and l' = l and x = ?x,
     THEN conjunct2, THEN conjunct1, THEN mp, OF this]
  have "\<exists>k'. k' \<in> set [?k] \<and> email_and_domain (Email k') = (''ann@x.org'', ''x.org'')
      \<and> ?x = \<lparr>RepoName = Name repo0,
               RoleName = role_reference (case [?k \<mapsto> ROLE_AUTHOR] k' of None \<Rightarrow> 0 | Some v \<Rightarrow> v),
               RepoUrl = Clone_url repo0\<rparr>" .
  with pl have ex: "\<exists>per_email l x. json_emails ?R ''x.org'' = Some per_email
         \<and> per_email ''ann@x.org'' = Some l \<and> ?x \<in> set l \<and> x \<in> set l \<and> x = ?x"
    by blast
  have bl: "email_and_domain [] = (''!blank!'', ''!none!'')"
    using report_domain_key [where k = "\<lparr>Email = [], RepoPtr = 0\<rparr>",
        THEN conjunct2, THEN conjunct2, THEN conjunct1]
    by simp
  have rt: "''root'' \<noteq> [] \<and> CHR ''@'' \<notin> set (tl ''root'')"
    by simp
  have no: "email_and_domain ''root'' = (''root'', ''!none!'')"
    using report_domain_key [where k = "\<lparr>Email = ''root'', RepoPtr = 0\<rparr>",
        THEN conjunct2, THEN conjunct2, THEN conjunct2, THEN conjunct1]
    by simp
  from i s ex bl rt no ed show ?thesis
    by (intro conjI) simp_all
qed

section \<open>C9: the roles in the grouped map\<close>

lemma context_emails_select_ctx [simp]:
  "context_emails (snd (select_ctx e b st)) = context_emails st"
  by (simp add: select_ctx_def signal_watcher_def Let_def)

lemma scan_lines_roles:
  "role_of_query role \<Longrightarrow> list_all (\<lambda>c. role_of_query (Role c)) (context_emails st) \<Longrightarrow>
   list_all (\<lambda>c. role_of_query (Role c)) (context_emails (snd (scan_lines e a role ls st)))"
proof (induction ls arbitrary: st)
  case Nil
  then show ?case by simp
next
  case (Cons l ls)
  show ?case
  proof (cases "extract_email l")
    case (Inl p)
    with Cons.prems show ?thesis by simp
  next
    case (Inr email)
    obtain f1 st1 where s1: "select_ctx e True st = (f1, st1)"
      by (cases "select_ctx e True st")
    obtain f2 st2 where s2: "select_ctx e True (st1\<lparr>emails := emails st1 @ [email]\<rparr>) = (f2, st2)"
      by (cases "select_ctx e True (st1\<lparr>emails := emails st1 @ [email]\<rparr>)")
    have c1: "context_emails st1 = context_emails st"
      using context_emails_select_ctx [of e True st] s1 by simp
    have c2: "context_emails st2 = context_emails st"
      using context_emails_select_ctx [of e True "st1\<lparr>emails := emails st1 @ [email]\<rparr>"] s2 c1
      by simp
    show ?thesis
    proof (cases "f1 \<or> f2")
      case True
      with Inr s1 s2 c1 c2 Cons.prems show ?thesis by auto
    next
      case False
      have "list_all (\<lambda>c. role_of_query (Role c))
              (context_emails (st2\<lparr>context_emails := context_emails st2 @
                                 [\<lparr>Repo = a, EmailAddress = email, Role = role\<rparr>],
                             total_data := AddUint32 (total_data st2) GIT_IDENTITIES 1\<rparr>))"
        using c2 Cons.prems by simp
      from Cons.IH [OF Cons.prems(1) this] False Inr s1 s2 show ?thesis by simp
    qed
  qed
qed

lemma shortlog_task_roles:
  assumes "role_of_query role" "list_all (\<lambda>c. role_of_query (Role c)) (context_emails st)"
  shows "list_all (\<lambda>c. role_of_query (Role c)) (context_emails (shortlog_task e gp a role params st))"
proof (cases "cmd_run e (clock st)")
  case (RunOk out)
  let ?st1 = "st\<lparr>commands := commands st @ [gp # params], clock := Suc (clock st)\<rparr>"
  have "list_all (\<lambda>c. role_of_query (Role c)) (context_emails ?st1)"
    using assms(2) by simp
  from scan_lines_roles [OF assms(1) this, of e a out] RunOk show ?thesis
    by (simp add: shortlog_task_def Let_def log_call_def split_def)
next
  case RunKilled
  with assms(2) show ?thesis
    by (simp add: shortlog_task_def Let_def log_call_def)
next
  case RunExitError
  with assms(2) show ?thesis
    by (simp add: shortlog_task_def Let_def log_call_def)
next
  case RunFailed
  with assms(2) show ?thesis
    by (simp add: shortlog_task_def Let_def log_call_def)
qed

lemma shortlog_roles_roles:
  "list_all (\<lambda>p. role_of_query (fst p)) ps \<Longrightarrow>
   list_all (\<lambda>c. role_of_query (Role c)) (context_emails st) \<Longrightarrow>
   list_all (\<lambda>c. role_of_query (Role c)) (context_emails (snd (shortlog_roles e gp a ps st)))"
proof (induction ps arbitrary: st)
  case Nil
  then show ?case by simp
next
  case (Cons p ps)
  obtain role params where p: "p = (role, params)" by (cases p)
  obtain err st1 where acq:
    "(if try_acquire e (clock st) then (False, st\<lparr>clock := Suc (clock st)\<rparr>)
      else select_ctx e True (st\<lparr>clock := Suc (clock st)\<rparr>)) = (err, st1)"
    by (cases "if try_acquire e (clock st) then (False, st\<lparr>clock := Suc (clock st)\<rparr>)
      else select_ctx e True (st\<lparr>clock := Suc (clock st)\<rparr>)")
  have c1: "context_emails st1 = context_emails st"
  proof (cases "try_acquire e (clock st)")
    case True
    with acq show ?thesis by auto
  next
    case False
    with acq context_emails_select_ctx [of e True "st\<lparr>clock := Suc (clock st)\<rparr>"]
    show ?thesis by simp
  qed
  let ?st2 = "shortlog_task e gp a role params
                (st1\<lparr>active_data := AddUint32 (active_data st1) GIT_OPS_LOG 1\<rparr>)"
  have r: "role_of_query role"
    using Cons.prems(1) p by simp
  have "list_all (\<lambda>c. role_of_query (Role c))
          (context_emails (st1\<lparr>active_data := AddUint32 (active_data st1) GIT_OPS_LOG 1\<rparr>))"
    using c1 Cons.prems(2) by simp
  from shortlog_task_roles [OF r this]
  have t: "list_all (\<lambda>c. role_of_query (Role c)) (context_emails ?st2)" .
  have ps: "list_all (\<lambda>p. role_of_query (fst p)) ps"
    using Cons.prems(1) by simp
  show ?case
    using Cons.IH [OF ps t] t c1 Cons.prems(2) acq
    unfolding p shortlog_roles.simps
    by (simp add: Let_def)
qed

lemma params_containers_roles:
  "list_all (\<lambda>p. role_of_query (fst p)) params_containers"
  "list_all (\<lambda>p. role_of_query (fst p)) (rev params_containers)"
  by (simp_all add: params_containers_def role_of_query_def)

lemma shortlog_loop_roles:
  "list_all (\<lambda>c. role_of_query (Role c)) (context_emails st) \<Longrightarrow>
   list_all (\<lambda>c. role_of_query (Role c)) (context_emails (shortlog_loop e gp rs st))"
proof (induction rs arbitrary: st)
  case Nil
  have "context_emails (snd (select_ctx e True st)) = context_emails st"
    by simp
  with Nil show ?case
    by (simp add: split_def log_call_def Let_def)
next
  case (Cons repo rs)
  obtain f st1 where s1: "select_ctx e True st = (f, st1)"
    by (cases "select_ctx e True st")
  have c1: "context_emails st1 = context_emails st"
    using context_emails_select_ctx [of e True st] s1 by simp
  let ?st2 = "st1\<lparr>repo_store := repo_store st1 @ [repo], clock := Suc (clock st1)\<rparr>"
  let ?order = "if author_first e (clock st1) then params_containers else rev params_containers"
  have o: "list_all (\<lambda>p. role_of_query (fst p)) ?order"
    using params_containers_roles by simp
  have "list_all (\<lambda>c. role_of_query (Role c)) (context_emails ?st2)"
    using c1 Cons.prems by simp
  from shortlog_roles_roles [OF o this]
  have t: "list_all (\<lambda>c. role_of_query (Role c))
             (context_emails (snd (shortlog_roles e gp (length (repo_store st1)) ?order ?st2)))" .
  show ?case
    using Cons.IH [OF t] t c1 Cons.prems s1
    by (simp add: Let_def split_def)
qed

lemma git_ops_shortlog_roles:
  "list_all (\<lambda>c. role_of_query (Role c)) (context_emails (git_ops_shortlog e rs gp w))"
  unfolding git_ops_shortlog_def
  by (rule shortlog_loop_roles) (simp add: extractor_start)

lemma or_role_meaningful:
  assumes "role_of_query (Role c)" "\<And>k v. m k = Some v \<Longrightarrow> meaningful_role v"
    and "or_role m c k = Some v"
  shows "meaningful_role v"
proof (cases "k = \<lparr>Email = EmailAddress c, RepoPtr = Repo c\<rparr>")
  case False
  with assms(3) have "m k = Some v"
    by (simp add: or_role_def Let_def)
  then show ?thesis by (rule assms(2))
next
  case True
  show ?thesis
  proof (cases "m k")
    case None
    with True assms(1,3) show ?thesis
      by (auto simp: or_role_def Let_def role_of_query_def meaningful_role_def)
  next
    case (Some v0)
    then have "meaningful_role v0" by (rule assms(2))
    with Some True assms(1,3) show ?thesis
      by (auto simp: or_role_def Let_def role_of_query_def meaningful_role_def
          ROLE_MASK_BOTH_def or.assoc or.commute or.left_commute)
  qed
qed

lemma fold_or_role_meaningful:
  "list_all (\<lambda>c. role_of_query (Role c)) cs \<Longrightarrow> (\<And>k v. m k = Some v \<Longrightarrow> meaningful_role v) \<Longrightarrow>
   fold (\<lambda>c m. or_role m c) cs m k = Some v \<Longrightarrow> meaningful_role v"
proof (induction cs arbitrary: m)
  case Nil
  then show ?case by simp
next
  case (Cons c cs)
  have "meaningful_role v'" if "or_role m c k' = Some v'" for k' v'
    using Cons.prems(1,2) that or_role_meaningful [of c m k' v'] by simp
  with Cons.IH [of "or_role m c"] Cons.prems show ?case by simp
qed

lemma meaningful_role_label:
  "meaningful_role v \<Longrightarrow>
     v \<noteq> 0 \<and> (role_reference v = ''Author'' \<or> role_reference v = ''Committer''
               \<or> role_reference v = ''Author+Committer'')"
  by (auto simp: meaningful_role_def role_reference_def ROLE_AUTHOR_def ROLE_COMMITTER_def
      ROLE_MASK_BOTH_def ROLE_NAME_AUTHOR_def ROLE_NAME_COMMITTER_def ROLE_NAME_BOTH_def)

text \<open>
  C9: stage 4 only emits the roles of its two queries, and every value that the grouper
  stores for associations with these roles is the author bit, the committer bit or both,
  never 0, and so has its label in the table of \<open>create_output_json\<close>.
\<close>

theorem grouped_roles_meaningful:
  "list_all (\<lambda>c. Role c = ROLE_AUTHOR \<or> Role c = ROLE_COMMITTER)
     (context_emails (git_ops_shortlog e local_repos_in git_path w))
   \<and> (list_all (\<lambda>c. Role c = ROLE_AUTHOR \<or> Role c = ROLE_COMMITTER) cs
        \<and> emails_grouped (emails_by_repo cs w') k = Some v \<longrightarrow>
      (v = ROLE_AUTHOR \<or> v = ROLE_COMMITTER \<or> v = ROLE_MASK_BOTH) \<and> v \<noteq> 0
      \<and> (role_reference v = ''Author'' \<or> role_reference v = ''Committer''
           \<or> role_reference v = ''Author+Committer''))"
proof -
  have q: "(\<lambda>c. Role c = ROLE_AUTHOR \<or> Role c = ROLE_COMMITTER) = (\<lambda>c. role_of_query (Role c))"
    by (simp add: role_of_query_def)
  have a: "list_all (\<lambda>c. Role c = ROLE_AUTHOR \<or> Role c = ROLE_COMMITTER)
     (context_emails (git_ops_shortlog e local_repos_in git_path w))"
    unfolding q by (rule git_ops_shortlog_roles)
  have b: "(v = ROLE_AUTHOR \<or> v = ROLE_COMMITTER \<or> v = ROLE_MASK_BOTH) \<and> v \<noteq> 0
      \<and> (role_reference v = ''Author'' \<or> role_reference v = ''Committer''
           \<or> role_reference v = ''Author+Committer'')"
    if l: "list_all (\<lambda>c. Role c = ROLE_AUTHOR \<or> Role c = ROLE_COMMITTER) cs"
      and s: "emails_grouped (emails_by_repo cs w') k = Some v"
  proof -
    have "meaningful_role v"
      using fold_or_role_meaningful [OF l [unfolded q], of Map.empty k v] s
      unfolding emails_by_repo_fold by simp
    from meaningful_role_label [OF this] this show ?thesis
      by (simp add: meaningful_role_def)
  qed
  from a b show ?thesis by blast
qed

lemma shortlog_run_example:
  "context_emails (git_ops_shortlog env0 [repo0] ''git'' world0) =
     [\<lparr>Repo = 0, EmailAddress = ''ann@x.org'', Role = ROLE_AUTHOR\<rparr>,
      \<lparr>Repo = 0, EmailAddress = ''ann@x.org'', Role = ROLE_COMMITTER\<rparr>]"
  by (simp add: git_ops_shortlog_def env0_def world0_def params_containers_def shortlog_task_def
      select_ctx_def signal_watcher_def log_call_def extract_email_def slice_def HasPrefix_def
      Let_def world.extend_def extractor.fields_def world.defs extractor.defs)

theorem grouped_roles_witness:
  "list_all (\<lambda>c. Role c = ROLE_AUTHOR \<or> Role c = ROLE_COMMITTER)
     (context_emails (git_ops_shortlog env0 [repo0] ''git'' world0))
   \<and> emails_grouped
       (emails_by_repo (context_emails (git_ops_shortlog env0 [repo0] ''git'' world0)) world0)
       \<lparr>Email = ''ann@x.org'', RepoPtr = 0\<rparr> = Some ROLE_MASK_BOTH
   \<and> ROLE_MASK_BOTH \<noteq> 0 \<and> role_reference ROLE_MASK_BOTH = ''Author+Committer''"
proof -
  note t = grouped_roles_meaningful
    [of env0 "[repo0]" "''git''" world0
        "context_emails (git_ops_shortlog env0 [repo0] ''git'' world0)" world0
        "\<lparr>Email = ''ann@x.org'', RepoPtr = 0\<rparr>" ROLE_MASK_BOTH]
  have l: "list_all (\<lambda>c. Role c = ROLE_AUTHOR \<or> Role c = ROLE_COMMITTER)
     (context_emails (git_ops_shortlog env0 [repo0] ''git'' world0))"
    by (rule t [THEN conjunct1])
  have v: "emails_grouped
     (emails_by_repo (context_emails (git_ops_shortlog env0 [repo0] ''git'' world0)) world0)
     \<lparr>Email = ''ann@x.org'', RepoPtr = 0\<rparr> = Some ROLE_MASK_BOTH"
    unfolding shortlog_run_example emails_by_repo_fold
    by (simp add: or_role_def Let_def ROLE_MASK_BOTH_def)
  have n: "ROLE_MASK_BOTH \<noteq> ROLE_AUTHOR \<and> ROLE_MASK_BOTH \<noteq> ROLE_COMMITTER"
    by (simp add: ROLE_MASK_BOTH_def ROLE_AUTHOR_def ROLE_COMMITTER_def)
  from t [THEN conjunct2, THEN mp, OF conjI [OF l v]] n
  have "ROLE_MASK_BOTH \<noteq> 0 \<and> role_reference ROLE_MASK_BOTH = ''Author+Committer''"
    by (simp add: role_reference_def ROLE_NAME_BOTH_def)
  with l v show ?thesis
    by simp
qed

section \<open>Lemmas on \<open>select_ctx\<close>\<close>

lemma select_ctx_snd:
  "snd (select_ctx e b st) =
     st\<lparr>ctx_cancelled := ctx_cancelled st \<or> interrupt_at e (clock st), clock := Suc (clock st)\<rparr>"
  by (simp add: select_ctx_def signal_watcher_def Let_def)

lemma select_ctx_fst:
  "fst (select_ctx e b st) \<longleftrightarrow>
     (ctx_cancelled st \<or> interrupt_at e (clock st)) \<and> (prefer_done e (clock st) \<or> \<not> b)"
  by (simp add: select_ctx_def signal_watcher_def Let_def)

section \<open>C3: the size filter of the cloner\<close>













section \<open>C4: the fork filter of the decoder\<close>

lemma decoder_start:
  "repos (world.extend w (decoder.fields a b)) = a"
  "ctx_cancelled (world.extend w (decoder.fields a b)) = ctx_cancelled w"
  by (simp_all add: world.extend_def decoder.fields_def world.defs decoder.defs)

lemma cloner_start:
  "local_repos (world.extend w (cloner.fields a b)) = a"
  by (simp add: world.extend_def cloner.fields_def world.defs cloner.defs)

lemma extractor_store_start:
  "repo_store (world.extend w (extractor.fields a b c d p)) = d"
  by (simp add: world.extend_def extractor.fields_def world.defs extractor.defs)

text \<open>With the filter on, no fork is put on the output queue, whatever the environment.\<close>

lemma forward_repos_no_fork:
  "list_all (\<lambda>x. \<not> Fork x) (repos st) \<Longrightarrow>
   list_all (\<lambda>x. \<not> Fork x) (repos (snd (forward_repos e True r st)))"
proof (induction r arbitrary: st)
  case Nil
  then show ?case by simp
next
  case (Cons repo r)
  show ?case
  proof (cases "Fork repo")
    case True
    with Cons show ?thesis
      by (simp add: log_call_def)
  next
    case False
    have "list_all (\<lambda>x. \<not> Fork x)
            (repos ((snd (select_ctx e True st))
               \<lparr>repos := repos (snd (select_ctx e True st)) @ [repo],
                total_data := AddUint32 (total_data (snd (select_ctx e True st))) REMOTE_REPOS 1\<rparr>))"
      using False Cons.prems by (simp add: select_ctx_snd)
    from Cons.IH [OF this] False Cons.prems show ?thesis
      by (simp add: split_def Let_def select_ctx_snd)
  qed
qed

lemma decode_body_no_fork:
  "list_all (\<lambda>x. \<not> Fork x) (repos st) \<Longrightarrow>
   list_all (\<lambda>x. \<not> Fork x) (repos (decode_body e True b st))"
proof (induction b arbitrary: st)
  case Nil
  then show ?case by simp
next
  case (Cons d b)
  show ?case
  proof (cases d)
    case DecodeError
    with Cons.prems show ?thesis
      by (simp add: log_call_def)
  next
    case (Decoded r)
    have f: "list_all (\<lambda>x. \<not> Fork x) (repos (snd (forward_repos e True r st)))"
      using Cons.prems by (rule forward_repos_no_fork)
    then have "list_all (\<lambda>x. \<not> Fork x)
        (repos ((snd (forward_repos e True r st))
           \<lparr>completion_data := AddUint32 (completion_data (snd (forward_repos e True r st))) GITHUB_PARSE 1,
            active_data := AddUint32 (active_data (snd (forward_repos e True r st))) GITHUB_PARSE minus_one\<rparr>))"
      by simp
    from Cons.IH [OF this] f Decoded show ?thesis
      by (simp add: split_def Let_def)
  qed
qed

lemma parse_loop_no_fork:
  "list_all (\<lambda>x. \<not> Fork x) (repos st) \<Longrightarrow>
   list_all (\<lambda>x. \<not> Fork x) (repos (parse_loop e True bs st))"
proof (induction bs arbitrary: st)
  case Nil
  then show ?case
    by (simp add: split_def Let_def select_ctx_snd log_call_def)
next
  case (Cons b bs)
  let ?st2 = "snd (select_ctx e True (snd (select_ctx e True st)))"
  have "list_all (\<lambda>x. \<not> Fork x)
          (repos (?st2\<lparr>active_data := AddUint32 (active_data ?st2) GITHUB_PARSE 1\<rparr>))"
    using Cons.prems by (simp add: select_ctx_snd)
  then have "list_all (\<lambda>x. \<not> Fork x)
          (repos (decode_body e True b (?st2\<lparr>active_data := AddUint32 (active_data ?st2) GITHUB_PARSE 1\<rparr>)))"
    by (rule decode_body_no_fork)
  from Cons.IH [OF this] Cons.prems show ?case
    by (simp add: split_def Let_def select_ctx_snd)
qed

text \<open>Without cancellation every record that the filter lets pass is forwarded, in
  order.\<close>

lemma select_ctx_quiet:
  "quiet e st \<Longrightarrow> select_ctx e b st = (False, st\<lparr>clock := Suc (clock st)\<rparr>)"
  by (simp add: quiet_def select_ctx_def signal_watcher_def Let_def)

lemma forward_repos_quiet:
  "quiet e st \<Longrightarrow>
   \<not> fst (forward_repos e ff r st) \<and> quiet e (snd (forward_repos e ff r st))
   \<and> repos (snd (forward_repos e ff r st)) = repos st @ filter (\<lambda>x. \<not> (Fork x \<and> ff)) r"
proof (induction r arbitrary: st)
  case Nil
  then show ?case by simp
next
  case (Cons repo r)
  show ?case
  proof (cases "Fork repo \<and> ff")
    case True
    have "quiet e (log_call LOG_DEBUG ''Stage 2 - Parse URLs: Skipping based on the fork filter.'' st)"
      using Cons.prems by (simp add: quiet_def log_call_def)
    from Cons.IH [OF this] True show ?thesis
      by (simp add: log_call_def)
  next
    case False
    let ?st1 = "st\<lparr>clock := Suc (clock st)\<rparr>"
    have "quiet e (?st1\<lparr>repos := repos ?st1 @ [repo],
                        total_data := AddUint32 (total_data ?st1) REMOTE_REPOS 1\<rparr>)"
      using Cons.prems by (simp add: quiet_def)
    from Cons.IH [OF this] False show ?thesis
      unfolding forward_repos.simps if_not_P [OF False] select_ctx_quiet [OF Cons.prems]
      by simp
  qed
qed

lemma decode_body_quiet:
  "quiet e st \<Longrightarrow>
   quiet e (decode_body e ff b st)
   \<and> repos (decode_body e ff b st) = repos st @ filter (\<lambda>x. \<not> (Fork x \<and> ff)) (decoded_repos b)"
proof (induction b arbitrary: st)
  case Nil
  then show ?case by simp
next
  case (Cons d b)
  show ?case
  proof (cases d)
    case DecodeError
    with Cons.prems show ?thesis
      by (simp add: log_call_def quiet_def)
  next
    case (Decoded r)
    let ?st1 = "snd (forward_repos e ff r st)"
    note f = forward_repos_quiet [OF Cons.prems, of ff r]
    have "quiet e (?st1\<lparr>completion_data := AddUint32 (completion_data ?st1) GITHUB_PARSE 1,
                        active_data := AddUint32 (active_data ?st1) GITHUB_PARSE minus_one\<rparr>)"
      using f by (simp add: quiet_def)
    from Cons.IH [OF this] f Decoded show ?thesis
      by (simp add: split_def Let_def)
  qed
qed

lemma parse_loop_quiet:
  "quiet e st \<Longrightarrow>
   repos (parse_loop e ff bs st)
     = repos st @ filter (\<lambda>x. \<not> (Fork x \<and> ff)) (concat (map decoded_repos bs))"
proof (induction bs arbitrary: st)
  case Nil
  then show ?case
    by (simp add: select_ctx_quiet log_call_def)
next
  case (Cons b bs)
  let ?st1 = "st\<lparr>clock := Suc (clock st)\<rparr>"
  let ?st2 = "?st1\<lparr>clock := Suc (clock ?st1)\<rparr>"
  have q1: "quiet e ?st1"
    using Cons.prems by (simp add: quiet_def)
  have q2: "quiet e (?st2\<lparr>active_data := AddUint32 (active_data ?st2) GITHUB_PARSE 1\<rparr>)"
    using Cons.prems by (simp add: quiet_def)
  note d = decode_body_quiet [OF q2, of ff b]
  from Cons.IH [OF d [THEN conjunct1]] d [THEN conjunct2] show ?case
    by (simp add: select_ctx_quiet [OF Cons.prems] select_ctx_quiet [OF q1])
qed

text \<open>What the later stages hand on comes from their input.\<close>

lemma clone_task_forks:
  "list_all P' (map Fork (local_repos st)) \<Longrightarrow> P' (Fork repo) \<Longrightarrow>
   list_all P' (map Fork (local_repos (clone_task e gp wd repo st)))"
  by (simp add: clone_task_def Let_def split_def select_ctx_snd log_call_def
      split: run_result.splits)

lemma clone_record_forks:
  "list_all P' (map Fork (local_repos st)) \<Longrightarrow> P' (Fork repo) \<Longrightarrow>
   list_all P' (map Fork (local_repos (snd (clone_record e gp wd T repo st))))"
  by (simp add: clone_record_def Let_def split_def select_ctx_snd log_call_def clone_task_forks)

lemma clone_loop_forks:
  "list_all P' (map Fork (local_repos st)) \<Longrightarrow> list_all P' (map Fork rs) \<Longrightarrow>
   list_all P' (map Fork (local_repos (clone_loop e gp wd T rs st)))"
proof (induction rs arbitrary: st)
  case Nil
  then show ?case
    by (simp add: Let_def split_def select_ctx_snd log_call_def)
next
  case (Cons repo rs)
  have "list_all P' (map Fork (local_repos (snd (select_ctx e True st))))"
    using Cons.prems(1) by (simp add: select_ctx_snd)
  then have c: "list_all P' (map Fork
      (local_repos (snd (clone_record e gp wd T repo (snd (select_ctx e True st))))))"
    using Cons.prems(2) by (simp add: clone_record_forks)
  from Cons.IH [OF c] c Cons.prems show ?case
    by (simp add: Let_def split_def select_ctx_snd)
qed


lemma scan_lines_store:
  "repo_store (snd (scan_lines e a role ls st)) = repo_store st"
proof (induction ls arbitrary: st)
  case Nil
  show ?case by simp
next
  case (Cons l ls)
  show ?case
  proof (cases "extract_email l")
    case (Inl p)
    then show ?thesis by simp
  next
    case (Inr email)
    then show ?thesis
      by (simp add: split_def Let_def Cons.IH select_ctx_snd)
  qed
qed

lemma shortlog_task_store:
  "repo_store (shortlog_task e gp a role params st) = repo_store st"
  by (simp add: shortlog_task_def Let_def split_def scan_lines_store log_call_def
      split: run_result.splits)

lemma shortlog_roles_store:
  "repo_store (snd (shortlog_roles e gp a ps st)) = repo_store st"
proof (induction ps arbitrary: st)
  case Nil
  show ?case by simp
next
  case (Cons p ps)
  obtain role params where p: "p = (role, params)" by (cases p)
  show ?case
    unfolding p
    by (simp add: split_def Let_def Cons.IH shortlog_task_store select_ctx_snd)
qed

lemma shortlog_loop_forks:
  "list_all P' (map Fork (repo_store st)) \<Longrightarrow> list_all P' (map Fork rs) \<Longrightarrow>
   list_all P' (map Fork (repo_store (shortlog_loop e gp rs st)))"
proof (induction rs arbitrary: st)
  case Nil
  then show ?case
    by (simp add: Let_def split_def select_ctx_snd log_call_def)
next
  case (Cons repo rs)
  let ?st1 = "snd (select_ctx e True st)"
  let ?st3 = "snd (shortlog_roles e gp (length (repo_store ?st1))
                  (if author_first e (clock ?st1) then params_containers else rev params_containers)
                  (?st1\<lparr>repo_store := repo_store ?st1 @ [repo], clock := Suc (clock ?st1)\<rparr>))"
  have s: "repo_store ?st3 = repo_store st @ [repo]"
    by (simp add: shortlog_roles_store select_ctx_snd)
  then have c: "list_all P' (map Fork (repo_store ?st3))"
    using Cons.prems by simp
  have r: "list_all P' (map Fork rs)"
    using Cons.prems(2) by simp
  from Cons.IH [OF c r] c Cons.prems(1) show ?case
    by (simp add: Let_def split_def select_ctx_snd)
qed

text \<open>
  C4: with the fork filter on, no record with \<open>fork = true\<close> is put on the output queue of
  the decoder, nor on that of the cloner behind it, nor among the repositories that the
  extractor behind that attaches to its associations.  In a run that is not cancelled
  the decoder forwards exactly the decoded records that the filter lets pass, unchanged
  and in order: all of them when the filter is off.
\<close>

theorem fork_filter_forwarding:
  "list_all (\<lambda>x. \<not> Fork x) (repos (parse_github_response e repo_data True w))
   \<and> list_all (\<lambda>x. \<not> Fork x)
       (local_repos (git_ops_clone e2 (repos (parse_github_response e repo_data True w))
          git_path working_dir size_filter w2))
   \<and> list_all (\<lambda>x. \<not> Fork x)
       (repo_store (git_ops_shortlog e3
          (local_repos (git_ops_clone e2 (repos (parse_github_response e repo_data True w))
             git_path working_dir size_filter w2)) git_path w3))
   \<and> (\<not> ctx_cancelled w \<and> (\<forall>n. \<not> interrupt_at e n) \<longrightarrow>
        repos (parse_github_response e repo_data fork_filter w)
          = filter (\<lambda>x. \<not> (Fork x \<and> fork_filter)) (concat (map decoded_repos repo_data)))
   \<and> (\<not> ctx_cancelled w \<and> (\<forall>n. \<not> interrupt_at e n) \<longrightarrow>
        repos (parse_github_response e repo_data False w) = concat (map decoded_repos repo_data))"
proof -
  let ?out = "repos (parse_github_response e repo_data True w)"
  let ?cloned = "local_repos (git_ops_clone e2 ?out git_path working_dir size_filter w2)"
  have a: "list_all (\<lambda>x. \<not> Fork x) ?out"
    unfolding parse_github_response_def
    by (rule parse_loop_no_fork) (simp add: decoder_start)
  then have a': "list_all (\<lambda>f. \<not> f) (map Fork ?out)"
    by (simp add: list_all_iff)
  have "list_all (\<lambda>f. \<not> f) (map Fork ?cloned)"
    unfolding git_ops_clone_def
    by (rule clone_loop_forks [OF _ a']) (simp add: cloner_start)
  then have b': "list_all (\<lambda>f. \<not> f) (map Fork ?cloned)" .
  then have b: "list_all (\<lambda>x. \<not> Fork x) ?cloned"
    by (simp add: list_all_iff)
  have "list_all (\<lambda>f. \<not> f) (map Fork (repo_store (git_ops_shortlog e3 ?cloned git_path w3)))"
    unfolding git_ops_shortlog_def
    by (rule shortlog_loop_forks [OF _ b']) (simp add: extractor_store_start)
  then have c: "list_all (\<lambda>x. \<not> Fork x) (repo_store (git_ops_shortlog e3 ?cloned git_path w3))"
    by (simp add: list_all_iff)
  have d: "repos (parse_github_response e repo_data ff w)
          = filter (\<lambda>x. \<not> (Fork x \<and> ff)) (concat (map decoded_repos repo_data))"
    if "\<not> ctx_cancelled w \<and> (\<forall>n. \<not> interrupt_at e n)" for ff
  proof -
    from that have "quiet e (world.extend w (decoder.fields [] False))"
      by (simp add: quiet_def decoder_start)
    from parse_loop_quiet [OF this, of ff repo_data] show ?thesis
      by (simp add: parse_github_response_def decoder_start)
  qed
  from a b c d [of fork_filter] d [of False] show ?thesis
    by simp
qed

theorem fork_filter_witness:
  "\<not> ctx_cancelled world0 \<and> (\<forall>n. \<not> interrupt_at env0 n)
   \<and> repos (parse_github_response env0 [[Decoded [fork0, repo0]]] False world0) = [fork0, repo0]
   \<and> repos (parse_github_response env0 [[Decoded [fork0, repo0]]] True world0) = [repo0]
   \<and> Fork fork0 \<and> \<not> Fork repo0"
proof -
  note t = fork_filter_forwarding
    [where e = env0 and repo_data = "[[Decoded [fork0, repo0]]]" and w = world0
       and fork_filter = True]
  have q: "\<not> ctx_cancelled world0 \<and> (\<forall>n. \<not> interrupt_at env0 n)"
    by (simp add: world0_def env0_def)
  have f: "Fork fork0 \<and> \<not> Fork repo0"
    by (simp add: fork0_def repo0_def)
  have off: "repos (parse_github_response env0 [[Decoded [fork0, repo0]]] False world0) = [fork0, repo0]"
    using t [THEN conjunct2, THEN conjunct2, THEN conjunct2, THEN conjunct2, THEN mp, OF q]
    by simp
  have on: "repos (parse_github_response env0 [[Decoded [fork0, repo0]]] True world0) = [repo0]"
    using t [THEN conjunct2, THEN conjunct2, THEN conjunct2, THEN conjunct1, THEN mp, OF q] f
    by simp
  from q off on f show ?thesis
    by simp
qed

section \<open>C6: the total page count\<close>








section \<open>The retry loop of the fetcher\<close>

lemma do_request_fail_last:
  "http_do e (clock st) = DoErr \<Longrightarrow> 4 \<le> c \<Longrightarrow>
   do_request e c st =
     (True,
      (log_call LOG_ERROR ''Stage 1 - Get Github Repos: Error fetching'' st)
        \<lparr>clock := Suc (clock st),
         error_data := AddUint32 (error_data st) GITHUB_FETCH 1,
         active_data := AddUint32 (active_data st) GITHUB_FETCH minus_one\<rparr>)"
  by (subst do_request.simps) simp

lemma do_request_fail_retry:
  "http_do e (clock st) = DoErr \<Longrightarrow> c < 4 \<Longrightarrow>
   do_request e c st =
     do_request e (c + 1)
       ((log_call LOG_DEBUG ''Stage 1 - Get Github Repos: Attempt'' st)\<lparr>clock := Suc (clock st)\<rparr>)"
  by (subst do_request.simps) simp

lemma do_request_ok:
  "http_do e (clock st) = DoOk hdr b \<Longrightarrow>
   do_request e c st = handle_response e hdr b (st\<lparr>clock := Suc (clock st)\<rparr>)"
  by (subst do_request.simps) simp

lemma do_request_retries:
  "c + int k \<le> 4 \<Longrightarrow> (\<forall>i<k. http_do e (clock st + i) = DoErr) \<Longrightarrow>
   do_request e c st =
     do_request e (c + int k)
       (st\<lparr>clock := clock st + k,
          logged := logged st @ replicate k (LOG_DEBUG, ''Stage 1 - Get Github Repos: Attempt'')\<rparr>)"
proof (induction k arbitrary: c st)
  case 0
  show ?case by simp
next
  case (Suc k)
  let ?st1 = "(log_call LOG_DEBUG ''Stage 1 - Get Github Repos: Attempt'' st)\<lparr>clock := Suc (clock st)\<rparr>"
  from Suc.prems(2) have h0: "http_do e (clock st) = DoErr"
    by (metis add.right_neutral zero_less_Suc)
  from Suc.prems(1) have c4: "c < 4"
    by simp
  have c1: "c + 1 + int k \<le> 4"
    using Suc.prems(1) by simp
  have "\<forall>i<k. http_do e (clock ?st1 + i) = DoErr"
    using Suc.prems(2) by (auto simp: log_call_def)
  from Suc.IH [OF c1 this] do_request_fail_retry [OF h0 c4] show ?case
    by (simp add: log_call_def replicate_app_Cons_same add.assoc)
qed

lemma do_request_exhaust:
  assumes "\<forall>i<4. http_do e (clock st + i) = DoErr"
  shows "do_request e 1 st =
     (True,
      st\<lparr>clock := clock st + 4,
         logged := logged st @ replicate 3 (LOG_DEBUG, ''Stage 1 - Get Github Repos: Attempt'')
                     @ [(LOG_ERROR, ''Stage 1 - Get Github Repos: Error fetching'')],
         error_data := AddUint32 (error_data st) GITHUB_FETCH 1,
         active_data := AddUint32 (active_data st) GITHUB_FETCH minus_one\<rparr>)"
proof -
  let ?st3 = "st\<lparr>clock := clock st + 3,
          logged := logged st @ replicate 3 (LOG_DEBUG, ''Stage 1 - Get Github Repos: Attempt'')\<rparr>"
  have "\<forall>i<3. http_do e (clock st + i) = DoErr"
    using assms by simp
  with do_request_retries [of 1 3 e st] have r: "do_request e 1 st = do_request e 4 ?st3"
    by simp
  have "http_do e (clock ?st3) = DoErr"
    using assms by simp
  from do_request_fail_last [OF this, of 4] r show ?thesis
    by (simp add: log_call_def)
qed

lemma fetcher_loop_exhaust:
  assumes u: "urls st = url # rest" and nf: "\<not> fst (select_ctx e True st)"
    and nr: "\<not> new_request_err e url"
    and h: "\<forall>i<4. http_do e (Suc (clock st) + i) = DoErr"
  shows "fetcher_loop (Suc fuel) e st =
     Some (st\<lparr>ctx_cancelled := ctx_cancelled st \<or> interrupt_at e (clock st),
              clock := clock st + 5,
              logged := logged st @ replicate 3 (LOG_DEBUG, ''Stage 1 - Get Github Repos: Attempt'')
                          @ [(LOG_ERROR, ''Stage 1 - Get Github Repos: Error fetching'')],
              error_data := AddUint32 (error_data st) GITHUB_FETCH 1,
              active_data := active_data st,
              urls := rest, urls_closed := True, bodies_closed := True\<rparr>)"
proof -
  let ?st1 = "snd (select_ctx e True st)"
  let ?st2 = "?st1\<lparr>urls := rest, active_data := AddUint32 (active_data ?st1) GITHUB_FETCH 1\<rparr>"
  have "\<forall>i<4. http_do e (clock ?st2 + i) = DoErr"
    using h by (simp add: select_ctx_snd)
  from do_request_exhaust [OF this]
  have d: "do_request e 1 ?st2 =
     (True,
      ?st2\<lparr>clock := clock ?st2 + 4,
         logged := logged ?st2 @ replicate 3 (LOG_DEBUG, ''Stage 1 - Get Github Repos: Attempt'')
                     @ [(LOG_ERROR, ''Stage 1 - Get Github Repos: Error fetching'')],
         error_data := AddUint32 (error_data ?st2) GITHUB_FETCH 1,
         active_data := AddUint32 (active_data ?st2) GITHUB_FETCH minus_one\<rparr>)" .
  have inc_dec: "AddUint32 (AddUint32 a GITHUB_FETCH 1) GITHUB_FETCH minus_one = a" for a
    by (rule ext) (simp add: AddUint32_def minus_one_def)
  note d' = d [unfolded select_ctx_snd, simplified]
  have f: "fst (select_ctx e (urls st \<noteq> []) st) = fst (select_ctx e True st)"
    using u by (simp add: select_ctx_fst)
  show ?thesis
    using u nf nr f
    by (simp add: split_def Let_def d' fetcher_return_def select_ctx_snd inc_dec)
qed

section \<open>C5: the retry budget\<close>

text \<open>
  C5: a request that fails is tried again until it has failed four times; a request that
  succeeds at the first, second, third or fourth attempt is handled as a response.  On the
  fourth failure the fetcher logs an error, adds 1 to its error counter, takes 1 from its
  active counter, and returns: the whole run ends there with the work queue and the output
  queue closed, the URLs still queued are not requested and no body is put on the output.
\<close>

theorem fetch_retry_exhaustion:
  "((\<forall>i<4. http_do e (clock st + i) = DoErr) \<longrightarrow>
      fst (do_request e 1 st)
      \<and> clock (snd (do_request e 1 st)) = clock st + 4
      \<and> logged (snd (do_request e 1 st))
          = logged st @ replicate 3 (LOG_DEBUG, ''Stage 1 - Get Github Repos: Attempt'')
              @ [(LOG_ERROR, ''Stage 1 - Get Github Repos: Error fetching'')]
      \<and> error_data (snd (do_request e 1 st)) GITHUB_FETCH = error_data st GITHUB_FETCH + 1
      \<and> active_data (snd (do_request e 1 st)) GITHUB_FETCH = active_data st GITHUB_FETCH - 1
      \<and> bodies (snd (do_request e 1 st)) = bodies st)
   \<and> (k < 4 \<and> (\<forall>i<k. http_do e (clock st + i) = DoErr) \<and> http_do e (clock st + k) = DoOk hdr b \<longrightarrow>
        do_request e 1 st =
          handle_response e hdr b
            (st\<lparr>clock := clock st + k + 1,
                logged := logged st @ replicate k (LOG_DEBUG, ''Stage 1 - Get Github Repos: Attempt'')\<rparr>))
   \<and> (urls st = url # rest \<and> \<not> fst (select_ctx e True st) \<and> \<not> new_request_err e url
        \<and> (\<forall>i<4. http_do e (Suc (clock st) + i) = DoErr) \<longrightarrow>
        (\<exists>st'. fetcher_loop (Suc fuel) e st = Some st'
           \<and> urls_closed st' \<and> bodies_closed st' \<and> urls st' = rest \<and> bodies st' = bodies st
           \<and> error_data st' GITHUB_FETCH = error_data st GITHUB_FETCH + 1
           \<and> active_data st' GITHUB_FETCH = active_data st GITHUB_FETCH
           \<and> (LOG_ERROR, ''Stage 1 - Get Github Repos: Error fetching'') \<in> set (logged st')))"
proof -
  have a: "fst (do_request e 1 st)
      \<and> clock (snd (do_request e 1 st)) = clock st + 4
      \<and> logged (snd (do_request e 1 st))
          = logged st @ replicate 3 (LOG_DEBUG, ''Stage 1 - Get Github Repos: Attempt'')
              @ [(LOG_ERROR, ''Stage 1 - Get Github Repos: Error fetching'')]
      \<and> error_data (snd (do_request e 1 st)) GITHUB_FETCH = error_data st GITHUB_FETCH + 1
      \<and> active_data (snd (do_request e 1 st)) GITHUB_FETCH = active_data st GITHUB_FETCH - 1
      \<and> bodies (snd (do_request e 1 st)) = bodies st"
    if "\<forall>i<4. http_do e (clock st + i) = DoErr"
    unfolding do_request_exhaust [OF that]
    by (simp add: AddUint32_def minus_one_def)
  have b: "do_request e 1 st =
          handle_response e hdr b
            (st\<lparr>clock := clock st + k + 1,
                logged := logged st @ replicate k (LOG_DEBUG, ''Stage 1 - Get Github Repos: Attempt'')\<rparr>)"
    if "k < 4 \<and> (\<forall>i<k. http_do e (clock st + i) = DoErr) \<and> http_do e (clock st + k) = DoOk hdr b"
  proof -
    let ?stk = "st\<lparr>clock := clock st + k,
          logged := logged st @ replicate k (LOG_DEBUG, ''Stage 1 - Get Github Repos: Attempt'')\<rparr>"
    from that have "1 + int k \<le> 4"
      by simp
    from do_request_retries [OF this, of e st] that
    have r: "do_request e 1 st = do_request e (1 + int k) ?stk"
      by simp
    from that have "http_do e (clock ?stk) = DoOk hdr b"
      by simp
    from do_request_ok [OF this, of "1 + int k"] r
    have "do_request e 1 st = handle_response e hdr b (?stk\<lparr>clock := Suc (clock ?stk)\<rparr>)"
      by simp
    moreover have "?stk\<lparr>clock := Suc (clock ?stk)\<rparr> =
        st\<lparr>clock := clock st + k + 1,
           logged := logged st @ replicate k (LOG_DEBUG, ''Stage 1 - Get Github Repos: Attempt'')\<rparr>"
      by simp
    ultimately show ?thesis
      by (simp only:)
  qed
  have c: "\<exists>st'. fetcher_loop (Suc fuel) e st = Some st'
           \<and> urls_closed st' \<and> bodies_closed st' \<and> urls st' = rest \<and> bodies st' = bodies st
           \<and> error_data st' GITHUB_FETCH = error_data st GITHUB_FETCH + 1
           \<and> active_data st' GITHUB_FETCH = active_data st GITHUB_FETCH
           \<and> (LOG_ERROR, ''Stage 1 - Get Github Repos: Error fetching'') \<in> set (logged st')"
    if "urls st = url # rest \<and> \<not> fst (select_ctx e True st) \<and> \<not> new_request_err e url
        \<and> (\<forall>i<4. http_do e (Suc (clock st) + i) = DoErr)"
  proof -
    from that have "urls st = url # rest" "\<not> fst (select_ctx e True st)" "\<not> new_request_err e url"
      "\<forall>i<4. http_do e (Suc (clock st) + i) = DoErr"
      by simp_all
    from fetcher_loop_exhaust [OF this, of fuel] show ?thesis
      by (simp add: AddUint32_def)
  qed
  from a b c show ?thesis by blast
qed


lemma fetcher0_fields:
  "urls fetcher0 = [''https://x/repos'']" "clock fetcher0 = 0" "ctx_cancelled fetcher0 = False"
  "logged fetcher0 = []" "bodies fetcher0 = []" "error_data fetcher0 = (\<lambda>i. 0)"
  "active_data fetcher0 = (\<lambda>i. 0)"
  by (simp_all add: fetcher0_def world0_def world.extend_def fetcher.fields_def
      world.defs fetcher.defs)

theorem fetch_retry_witness:
  "http_do env0 = (\<lambda>n. DoErr)
   \<and> fst (do_request env0 1 fetcher0)
   \<and> clock (snd (do_request env0 1 fetcher0)) = 4
   \<and> error_data (snd (do_request env0 1 fetcher0)) GITHUB_FETCH = 1
   \<and> bodies (snd (do_request env0 1 fetcher0)) = []
   \<and> (2::nat) < 4 \<and> http_do env1 0 = DoErr \<and> http_do env1 1 = DoErr
   \<and> http_do env1 2 = DoOk Map.empty []
   \<and> do_request env1 1 fetcher0 =
        handle_response env1 Map.empty []
          (fetcher0\<lparr>clock := 3,
             logged := replicate 2 (LOG_DEBUG, ''Stage 1 - Get Github Repos: Attempt'')\<rparr>)
   \<and> urls fetcher0 = ''https://x/repos'' # []
   \<and> \<not> fst (select_ctx env0 True fetcher0) \<and> \<not> new_request_err env0 ''https://x/repos''
   \<and> (\<exists>st'. fetcher_loop (Suc 0) env0 fetcher0 = Some st'
         \<and> urls_closed st' \<and> bodies_closed st' \<and> urls st' = [] \<and> bodies st' = []
         \<and> error_data st' GITHUB_FETCH = 1 \<and> active_data st' GITHUB_FETCH = 0)"
proof -
  have h0: "http_do env0 = (\<lambda>n. DoErr)"
    by (simp add: env0_def)
  then have all0: "\<forall>i<4. http_do env0 (clock fetcher0 + i) = DoErr"
    by simp
  note t0 = fetch_retry_exhaustion
    [where e = env0 and st = fetcher0 and url = "''https://x/repos''" and rest = "[]"
       and fuel = 0]
  from t0 [THEN conjunct1, THEN mp, OF all0]
  have a: "fst (do_request env0 1 fetcher0)
   \<and> clock (snd (do_request env0 1 fetcher0)) = 4
   \<and> error_data (snd (do_request env0 1 fetcher0)) GITHUB_FETCH = 1
   \<and> bodies (snd (do_request env0 1 fetcher0)) = []"
    by (simp add: fetcher0_fields)
  have h1: "(2::nat) < 4 \<and> http_do env1 0 = DoErr \<and> http_do env1 1 = DoErr
      \<and> http_do env1 2 = DoOk Map.empty []"
    by (simp add: env1_def)
  then have k: "(2::nat) < 4 \<and> (\<forall>i<2. http_do env1 (clock fetcher0 + i) = DoErr)
      \<and> http_do env1 (clock fetcher0 + 2) = DoOk Map.empty []"
    by (simp add: fetcher0_fields env1_def)
  from fetch_retry_exhaustion
    [where e = env1 and st = fetcher0 and k = 2 and hdr = Map.empty and b = "[]",
     THEN conjunct2, THEN conjunct1, THEN mp, OF k]
  have b: "do_request env1 1 fetcher0 =
        handle_response env1 Map.empty []
          (fetcher0\<lparr>clock := 3,
             logged := replicate 2 (LOG_DEBUG, ''Stage 1 - Get Github Repos: Attempt'')\<rparr>)"
    by (simp add: fetcher0_fields numeral_3_eq_3)
  have u: "urls fetcher0 = ''https://x/repos'' # []
   \<and> \<not> fst (select_ctx env0 True fetcher0) \<and> \<not> new_request_err env0 ''https://x/repos''"
    by (simp add: fetcher0_fields select_ctx_fst) (simp add: env0_def)
  with h0 have "urls fetcher0 = ''https://x/repos'' # [] \<and> \<not> fst (select_ctx env0 True fetcher0)
      \<and> \<not> new_request_err env0 ''https://x/repos''
      \<and> (\<forall>i<4. http_do env0 (Suc (clock fetcher0) + i) = DoErr)"
    by simp
  from t0 [THEN conjunct2, THEN conjunct2, THEN mp, OF this]
  have c: "\<exists>st'. fetcher_loop (Suc 0) env0 fetcher0 = Some st'
         \<and> urls_closed st' \<and> bodies_closed st' \<and> urls st' = [] \<and> bodies st' = []
         \<and> error_data st' GITHUB_FETCH = 1 \<and> active_data st' GITHUB_FETCH = 0"
    by (auto simp: fetcher0_fields)
  from h0 a h1 b u c show ?thesis
    by (intro conjI) simp_all
qed

section \<open>C7: retry exhaustion and the cancellation token\<close>

lemma quiet_update [simp]:
  "quiet e (st\<lparr>clock := n\<rparr>) = quiet e st"
  "quiet e (st\<lparr>logged := l\<rparr>) = quiet e st"
  "quiet e (st\<lparr>error_data := a\<rparr>) = quiet e st"
  "quiet e (st\<lparr>active_data := a\<rparr>) = quiet e st"
  "quiet e (st\<lparr>completion_data := a\<rparr>) = quiet e st"
  "quiet e (st\<lparr>total_data := a\<rparr>) = quiet e st"
  by (simp_all add: quiet_def)

lemma quiet_fetcher_update [simp]:
  "quiet e (st\<lparr>urls := u\<rparr>) = quiet e st"
  "quiet e (st\<lparr>bodies := bs\<rparr>) = quiet e st"
  "quiet e (st\<lparr>next_url := nu\<rparr>) = quiet e st"
  "quiet e (st\<lparr>total_pages := tp\<rparr>) = quiet e st"
  "quiet e (st\<lparr>fetch_panic := p\<rparr>) = quiet e st"
  "quiet e (fetcher_return st) = quiet e st"
  by (simp_all add: quiet_def fetcher_return_def)

lemma quiet_select_ctx: "quiet e st \<Longrightarrow> quiet e (snd (select_ctx e b st))"
  by (simp add: select_ctx_quiet)








end
